theory Spec2Isabelle
  imports Complex_Main "HOL-Library.Sublist"
begin

section \<open>Data model of the ingestion pipeline (Pdfload.py)\<close>

text \<open>
  Python exceptions are values. Only the kind of failure matters to the control flow of
  the program: every handler in the source is a catch-all.
\<close>

datatype exn = ServiceError | ParseError | IndexError | NotFound | AlreadyExists | InvalidArgument

text \<open>
  The metadata dictionary \<^verbatim>\<open>{"source": filename, "page": page_num + 1}\<close> has
  two fixed keys, so it is a record.
\<close>

record metadata =
  source :: string
  page :: nat

text \<open>
  What \<^verbatim>\<open>page.extract_text()\<close> does on one page: it returns a string (possibly
  empty) or raises.
\<close>

datatype page_outcome = Extracted string | ExtractFails

text \<open>
  One entry of the list returned by \<^verbatim>\<open>glob.glob\<close>: the path of the file and
  what \<^verbatim>\<open>PdfReader(pdf_file)\<close> gives for it, an exception or the sequence of pages.
\<close>

record pdf =
  pdf_file :: string
  reader :: "exn + page_outcome list"

text \<open>The three accumulators and the counter of \<^verbatim>\<open>load_and_chunk_pdfs\<close>.\<close>

record loader_state =
  documents :: "string list"
  metadatas :: "metadata list"
  ids :: "string list"
  id_counter :: nat

section \<open>Rendering of integers and paths\<close>

definition digit_char :: "nat \<Rightarrow> char" where
  "digit_char d = ''0123456789'' ! d"

text \<open>Python's \<^verbatim>\<open>str(n)\<close> for a non-negative integer: decimal, no leading zero.\<close>

function str_nat :: "nat \<Rightarrow> string" where
  "str_nat n = (if n < 10 then [digit_char n] else str_nat (n div 10) @ [digit_char (n mod 10)])"
  by pat_completeness auto
termination
  by (relation "measure (\<lambda>n. n)") auto

text \<open>\<^verbatim>\<open>os.path.basename\<close> on a POSIX path: what follows the last slash.\<close>

definition basename :: "string \<Rightarrow> string" where
  "basename p = rev (takeWhile (\<lambda>c. c \<noteq> CHR ''/'') (rev p))"

section \<open>The chunker\<close>

definition chunk_size :: nat where
  "chunk_size = 2000"

definition overlap :: nat where
  "overlap = 500"

text \<open>
  The innermost loop, \<^verbatim>\<open>for i in range(0, len(text), chunk_size - overlap)\<close>,
  with \<open>i\<close> the current window start. Each round appends one chunk, its metadata and
  its identifier, and increments the counter.
\<close>

function window_loop :: "string \<Rightarrow> nat \<Rightarrow> string \<Rightarrow> nat \<Rightarrow> loader_state \<Rightarrow> loader_state" where
  "window_loop filename page_num text i st =
     (if i < length text then
        window_loop filename page_num text (i + (chunk_size - overlap))
          (st\<lparr>documents := documents st @ [take chunk_size (drop i text)],
              metadatas := metadatas st @ [\<lparr>source = filename, page = page_num + 1\<rparr>],
              ids := ids st @ [''doc_'' @ str_nat (id_counter st)],
              id_counter := id_counter st + 1\<rparr>)
      else st)"
  by pat_completeness auto
termination
  by (relation "measure (\<lambda>(filename, page_num, text, i, st). length text - i)")
     (auto simp: chunk_size_def overlap_def)

text \<open>
  The loop over \<^verbatim>\<open>enumerate(reader.pages)\<close>. A page without text is skipped. A page
  whose extraction raises ends the loop: the exception leaves it, and what was appended
  before stays appended.
\<close>

fun page_loop :: "string \<Rightarrow> nat \<Rightarrow> page_outcome list \<Rightarrow> loader_state \<Rightarrow> loader_state \<times> exn option" where
  "page_loop filename page_num [] st = (st, None)"
| "page_loop filename page_num (ExtractFails # pages) st = (st, Some ParseError)"
| "page_loop filename page_num (Extracted text # pages) st =
     (if text = [] then page_loop filename (page_num + 1) pages st
      else page_loop filename (page_num + 1) pages (window_loop filename page_num text 0 st))"

text \<open>
  The body of the loop over the files: the \<^verbatim>\<open>try\<close> block with its catch-all
  handler, which only prints.
\<close>

definition process_file :: "pdf \<Rightarrow> loader_state \<Rightarrow> loader_state" where
  "process_file f st =
     (let filename = basename (pdf_file f) in
      case reader f of
        Inl e \<Rightarrow> st
      | Inr pages \<Rightarrow> fst (page_loop filename 0 pages st))"

fun file_loop :: "pdf list \<Rightarrow> loader_state \<Rightarrow> loader_state" where
  "file_loop [] st = st"
| "file_loop (f # fs) st = file_loop fs (process_file f st)"

text \<open>
  \<^verbatim>\<open>load_and_chunk_pdfs\<close>, from the list of files that \<^verbatim>\<open>glob.glob\<close> returned.
  With no file it returns \<^verbatim>\<open>(None, None, None)\<close>, otherwise the three lists.
\<close>

definition load_and_chunk_pdfs ::
  "pdf list \<Rightarrow> string list option \<times> metadata list option \<times> string list option" where
  "load_and_chunk_pdfs pdf_files =
     (if pdf_files = [] then (None, None, None)
      else
        let st = file_loop pdf_files \<lparr>documents = [], metadatas = [], ids = [], id_counter = 0\<rparr>
        in (Some (documents st), Some (metadatas st), Some (ids st)))"


section \<open>The embedder\<close>

type_synonym vector = "real list"

text \<open>
  The embedding service is outside the program. A call
  \<^verbatim>\<open>client.models.embed_content(model="text-embedding-004", contents=text)\<close>
  reads and changes the outside world \<open>'w\<close>; it raises, or returns a result whose
  field \<^verbatim>\<open>embeddings\<close> is a list of vectors.
\<close>

type_synonym 'w embed_content = "'w \<Rightarrow> string \<Rightarrow> (exn + vector list) \<times> 'w"

text \<open>
  \<^verbatim>\<open>get_gemini_embedding\<close>: the handler catches what the call raises and also
  the failure of \<^verbatim>\<open>result.embeddings[0]\<close> on an empty list, prints it and returns
  \<^verbatim>\<open>[]\<close>. The second component of the result is the exception that the handler
  printed, if any.
\<close>

definition get_gemini_embedding ::
  "'w embed_content \<Rightarrow> string \<Rightarrow> 'w \<Rightarrow> vector \<times> exn option \<times> 'w" where
  "get_gemini_embedding embed_content text w =
     (case embed_content w text of
        (Inl e, w') \<Rightarrow> ([], Some e, w')
      | (Inr [], w') \<Rightarrow> ([], Some IndexError, w')
      | (Inr (values # _), w') \<Rightarrow> (values, None, w'))"

section \<open>The vector index\<close>

record entry =
  entry_id :: string
  embedding :: vector
  document :: string
  meta :: metadata

text \<open>
  Modelled from the spec: the persistent vector store (the \<^verbatim>\<open>chromadb\<close> client and
  its collections) is a library outside the repository. Section 4.4 of the specification
  gives its contract: a store of named collections of (id, embedding, document, metadata)
  tuples; \<open>add\<close> wants four sequences of equal length and identifiers unique in the
  collection; \<open>query\<close> returns the \<open>k\<close> nearest entries, nearest first, or all of
  them when there are fewer. Deleting a collection that does not exist and creating one
  that exists are the two errors the source guards against or relies upon. The distance
  \<open>distance\<close> of the store is a parameter.
\<close>

type_synonym chroma = "string \<rightharpoonup> entry list"

definition delete_collection :: "string \<Rightarrow> chroma \<Rightarrow> exn + chroma" where
  "delete_collection name db =
     (case db name of None \<Rightarrow> Inl NotFound | Some es \<Rightarrow> Inr (db(name := None)))"

definition create_collection :: "string \<Rightarrow> chroma \<Rightarrow> exn + chroma" where
  "create_collection name db =
     (case db name of None \<Rightarrow> Inr (db(name \<mapsto> [])) | Some es \<Rightarrow> Inl AlreadyExists)"

definition make_entries :: "string list \<Rightarrow> vector list \<Rightarrow> string list \<Rightarrow> metadata list \<Rightarrow> entry list" where
  "make_entries idents embs docs metas =
     map (\<lambda>(i, e, d, m). \<lparr>entry_id = i, embedding = e, document = d, meta = m\<rparr>)
       (zip idents (zip embs (zip docs metas)))"

definition collection_add ::
  "string \<Rightarrow> string list \<Rightarrow> vector list \<Rightarrow> string list \<Rightarrow> metadata list \<Rightarrow> chroma \<Rightarrow> exn + chroma" where
  "collection_add name idents embs docs metas db =
     (case db name of
        None \<Rightarrow> Inl NotFound
      | Some es \<Rightarrow>
          if length embs = length idents \<and> length docs = length idents \<and> length metas = length idents
             \<and> distinct (map entry_id es @ idents)
          then Inr (db(name \<mapsto> es @ make_entries idents embs docs metas))
          else Inl InvalidArgument)"

definition collection_query ::
  "(vector \<Rightarrow> vector \<Rightarrow> real) \<Rightarrow> string \<Rightarrow> vector \<Rightarrow> nat \<Rightarrow> chroma \<Rightarrow> exn + entry list" where
  "collection_query distance name q k db =
     (case db name of
        None \<Rightarrow> Inl NotFound
      | Some es \<Rightarrow> Inr (take k (sort_key (\<lambda>e. distance q (embedding e)) es)))"

section \<open>Building the index: \<^verbatim>\<open>setup_vector_db\<close>\<close>

definition collection_name :: string where
  "collection_name = ''my_pdf_knowledge_base''"

definition batch_size :: nat where
  "batch_size = 10"

text \<open>The inner loop \<^verbatim>\<open>for doc in batch_docs\<close>, appending to \<^verbatim>\<open>embeddings\<close>.\<close>

fun embed_batch :: "'w embed_content \<Rightarrow> string list \<Rightarrow> vector list \<Rightarrow> 'w \<Rightarrow> vector list \<times> 'w" where
  "embed_batch ec [] embeddings w = (embeddings, w)"
| "embed_batch ec (doc # batch_docs) embeddings w =
     (case get_gemini_embedding ec doc w of
        (emb, printed, w') \<Rightarrow> embed_batch ec batch_docs (embeddings @ [emb]) w')"

text \<open>The outer loop \<^verbatim>\<open>for i in range(0, len(documents), batch_size)\<close>.\<close>

function batch_loop :: "'w embed_content \<Rightarrow> string list \<Rightarrow> nat \<Rightarrow> vector list \<Rightarrow> 'w \<Rightarrow> vector list \<times> 'w" where
  "batch_loop ec docs i embeddings w =
     (if i < length docs then
        (case embed_batch ec (take batch_size (drop i docs)) embeddings w of
           (embeddings', w') \<Rightarrow> batch_loop ec docs (i + batch_size) embeddings' w')
      else (embeddings, w))"
  by pat_completeness auto
termination
  by (relation "measure (\<lambda>(ec, docs, i, embeddings, w). length docs - i)")
     (auto simp: batch_size_def)

text \<open>
  The first lines of \<^verbatim>\<open>setup_vector_db\<close>: deletion inside a \<^verbatim>\<open>try\<close> whose
  bare handler swallows every exception, then creation, which may raise.
\<close>

definition drop_collection :: "chroma \<Rightarrow> chroma" where
  "drop_collection db =
     (case delete_collection collection_name db of Inl e \<Rightarrow> db | Inr db' \<Rightarrow> db')"

text \<open>
  \<^verbatim>\<open>setup_vector_db\<close> returns the handle of the collection, which is its name, with
  the store and the world as they are afterwards; an exception of \<^verbatim>\<open>create_collection\<close>
  or of \<^verbatim>\<open>collection.add\<close> leaves the function.
\<close>

definition setup_vector_db ::
  "'w embed_content \<Rightarrow> string list \<Rightarrow> metadata list \<Rightarrow> string list \<Rightarrow> 'w \<Rightarrow> chroma
     \<Rightarrow> (exn + string) \<times> 'w \<times> chroma" where
  "setup_vector_db ec docs metas idents w db =
     (case create_collection collection_name (drop_collection db) of
        Inl e \<Rightarrow> (Inl e, w, drop_collection db)
      | Inr db1 \<Rightarrow>
          (case batch_loop ec docs 0 [] w of
             (embeddings, w') \<Rightarrow>
               (case collection_add collection_name idents embeddings docs metas db1 of
                  Inl e \<Rightarrow> (Inl e, w', db1)
                | Inr db2 \<Rightarrow> (Inr collection_name, w', db2))))"

section \<open>Model selection\<close>

definition priority_list :: "string list" where
  "priority_list =
     [''models/gemini-1.5-flash'',
      ''models/gemini-1.5-flash-001'',
      ''models/gemini-1.5-flash-002'',
      ''models/gemini-1.5-pro'',
      ''models/gemini-1.5-pro-001'',
      ''models/gemini-1.5-pro-002'',
      ''models/gemini-1.0-pro'']"

text \<open>Python's \<^verbatim>\<open>sub in s\<close> on strings: \<open>sub\<close> occurs in \<open>s\<close> as a contiguous run.\<close>

fun str_in :: "string \<Rightarrow> string \<Rightarrow> bool" where
  "str_in sub [] = (sub = [])"
| "str_in sub (c # cs) = (prefix sub (c # cs) \<or> str_in sub cs)"

text \<open>The loop over the preference list, returning at the first listed favourite.\<close>

fun first_favorite :: "string list \<Rightarrow> string list \<Rightarrow> string option" where
  "first_favorite [] my_models = None"
| "first_favorite (model # rest) my_models =
     (if model \<in> set my_models then Some model else first_favorite rest my_models)"

definition is_fallback :: "string \<Rightarrow> bool" where
  "is_fallback model \<longleftrightarrow>
     str_in ''gemini'' model \<and> \<not> str_in ''embedding'' model \<and> \<not> str_in ''vision'' model"

text \<open>The loop over the listed models, returning at the first acceptable one.\<close>

fun first_fallback :: "string list \<Rightarrow> string option" where
  "first_fallback [] = None"
| "first_fallback (model # rest) = (if is_fallback model then Some model else first_fallback rest)"

text \<open>
  \<^verbatim>\<open>get_best_available_model\<close>, from the outcome of the comprehension over
  \<^verbatim>\<open>client.models.list()\<close>: an exception, or the names of the models.
\<close>

definition get_best_available_model :: "exn + string list \<Rightarrow> string" where
  "get_best_available_model listing =
     (case listing of
        Inl e \<Rightarrow> ''gemini-1.5-pro''
      | Inr my_models \<Rightarrow>
          (case first_favorite priority_list my_models of
             Some model \<Rightarrow> model
           | None \<Rightarrow>
               (case first_fallback my_models of
                  Some model \<Rightarrow> model
                | None \<Rightarrow> ''gemini-1.5-pro'')))"

text \<open>
  The globals that the module sets when it is loaded. A missing or empty key raises; the
  model is detected once, here.
\<close>

record process =
  CURRENT_MODEL :: string

definition startup :: "string option \<Rightarrow> exn + string list \<Rightarrow> exn + process" where
  "startup GEMINI_API_KEY listing =
     (if GEMINI_API_KEY = None \<or> GEMINI_API_KEY = Some [] then Inl InvalidArgument
      else Inr \<lparr>CURRENT_MODEL = get_best_available_model listing\<rparr>)"

section \<open>Answering a question: \<^verbatim>\<open>query_rag_system\<close>\<close>

text \<open>
  The generation service, \<^verbatim>\<open>client.models.generate_content(model=..., contents=...)\<close>,
  from the model and the prompt to the text of the response.
\<close>

type_synonym 'w generate_content = "'w \<Rightarrow> string \<Rightarrow> string \<Rightarrow> (exn + string) \<times> 'w"

definition source_info :: "metadata \<Rightarrow> string" where
  "source_info m = ''[Source: '' @ source m @ '', Page: '' @ str_nat (page m) @ '']''"

definition context_block :: "string \<Rightarrow> metadata \<Rightarrow> string" where
  "context_block doc m =
     ''Content: '' @ doc @ ''\<newline>Reference: '' @ source_info m @ ''\<newline>\<newline>''"

text \<open>
  The loop \<^verbatim>\<open>for i, doc in enumerate(retrieved_docs)\<close>; \<^verbatim>\<open>retrieved_meta[i]\<close>
  raises when the metadata list is too short.
\<close>

fun context_loop :: "nat \<Rightarrow> string list \<Rightarrow> metadata list \<Rightarrow> string \<Rightarrow> exn + string" where
  "context_loop i [] retrieved_meta context_text = Inr context_text"
| "context_loop i (doc # retrieved_docs) retrieved_meta context_text =
     (if i < length retrieved_meta
      then context_loop (i + 1) retrieved_docs retrieved_meta
             (context_text @ context_block doc (retrieved_meta ! i))
      else Inl IndexError)"

definition make_prompt :: "string \<Rightarrow> string \<Rightarrow> string" where
  \<open>make_prompt context_text question =
     ''\<newline>    You are a helpful assistant. Use the following Retrieved Context to answer the user's question.\<newline>''
     @ ''\<newline>    --- RETRIEVED CONTEXT ---\<newline>    '' @ context_text
     @ ''\<newline>    -------------------------\<newline>''
     @ ''\<newline>    USER QUESTION: '' @ question @ ''\<newline>''
     @ ''\<newline>    INSTRUCTIONS:''
     @ ''\<newline>    1. Answer only based on the context above.''
     @ ''\<newline>    2. If the answer is not in the context, say "I don't know based on the documents."''
     @ ''\<newline>    3. Cite the 'Reference' (Source and Page) for every fact you state.''
     @ ''\<newline>    ''\<close>

text \<open>
  \<^verbatim>\<open>query_rag_system\<close>. The collection handle is the name of the collection. The
  query asks for three results of one query embedding and reads the documents and the
  metadata of that one query.
\<close>

definition query_rag_system ::
  "'w embed_content \<Rightarrow> 'w generate_content \<Rightarrow> (vector \<Rightarrow> vector \<Rightarrow> real) \<Rightarrow> process
     \<Rightarrow> string \<Rightarrow> string \<Rightarrow> 'w \<Rightarrow> chroma \<Rightarrow> (exn + string) \<times> 'w" where
  "query_rag_system ec gc distance proc collection question w db =
     (case get_gemini_embedding ec question w of
        (query_embedding, printed, w1) \<Rightarrow>
          (case collection_query distance collection query_embedding 3 db of
             Inl e \<Rightarrow> (Inl e, w1)
           | Inr results \<Rightarrow>
               (case context_loop 0 (map document results) (map meta results) [] of
                  Inl e \<Rightarrow> (Inl e, w1)
                | Inr context_text \<Rightarrow>
                    gc w1 (CURRENT_MODEL proc) (make_prompt context_text question))))"

section \<open>The orchestrators\<close>

text \<open>Python's truth value of \<^verbatim>\<open>docs\<close>: false for \<^verbatim>\<open>None\<close> and for the empty list.\<close>

fun truthy :: "'a list option \<Rightarrow> bool" where
  "truthy None = False"
| "truthy (Some xs) = (xs \<noteq> [])"

text \<open>
  Steps 1 and 2 of the script (\<^verbatim>\<open>__main__\<close> of Pdfload.py) and the ingestion button
  of app.py: load, then rebuild the index only if \<^verbatim>\<open>docs\<close> is true. The result is
  \<open>None\<close> when \<^verbatim>\<open>setup_vector_db\<close> was not called, with the world and the store as
  they were. A true \<^verbatim>\<open>docs\<close> beside a missing list cannot come out of the loader;
  there \<^verbatim>\<open>setup_vector_db\<close> would raise a type error.
\<close>

definition ingest ::
  "'w embed_content \<Rightarrow> pdf list \<Rightarrow> 'w \<Rightarrow> chroma \<Rightarrow> (exn + string) option \<times> 'w \<times> chroma" where
  "ingest ec pdf_files w db =
     (case load_and_chunk_pdfs pdf_files of
        (docs, metas, idents) \<Rightarrow>
          if truthy docs then
            (case (docs, metas, idents) of
               (Some d, Some m, Some i) \<Rightarrow>
                 (case setup_vector_db ec d m i w db of (r, w', db') \<Rightarrow> (Some r, w', db'))
             | _ \<Rightarrow> (Some (Inl InvalidArgument), w, db))
          else (None, w, db))"

section \<open>Closed forms used in the statements\<close>

definition stride :: nat where
  "stride = chunk_size - overlap"

text \<open>The number of window starts \<open>i, i + stride, \<dots>\<close> below \<open>L\<close>.\<close>

definition window_count :: "nat \<Rightarrow> nat \<Rightarrow> nat" where
  "window_count i L = (L - i + (stride - 1)) div stride"

text \<open>The windows of a page text: the slices \<^verbatim>\<open>text[i : i + 2000]\<close> at the starts.\<close>

definition windows :: "string \<Rightarrow> string list" where
  "windows text = map (\<lambda>k. take chunk_size (drop (stride * k) text)) [0..<window_count 0 (length text)]"

definition doc_id :: "nat \<Rightarrow> string" where
  "doc_id k = ''doc_'' @ str_nat k"

text \<open>What one run of the window loop from start \<open>i\<close> appends to the state.\<close>

definition appended :: "string \<Rightarrow> nat \<Rightarrow> string \<Rightarrow> nat \<Rightarrow> loader_state \<Rightarrow> loader_state" where
  "appended filename page_num text i st =
     (let n = window_count i (length text) in
      st\<lparr>documents := documents st @ map (\<lambda>k. take chunk_size (drop (i + stride * k) text)) [0..<n],
         metadatas := metadatas st @ replicate n \<lparr>source = filename, page = page_num + 1\<rparr>,
         ids := ids st @ map (\<lambda>k. ''doc_'' @ str_nat (id_counter st + k)) [0..<n],
         id_counter := id_counter st + n\<rparr>)"

text \<open>
  The count of chunks as the specification words it, for a text of length \<open>L\<close>, target
  size \<open>T\<close> and overlap \<open>V\<close>: the ceiling of \<open>max (L - V) 1 / (T - V)\<close>.
\<close>

definition spec_chunk_count :: "int \<Rightarrow> int \<Rightarrow> int \<Rightarrow> int" where
  "spec_chunk_count L T V = \<lceil>real_of_int (max (L - V) 1) / real_of_int (T - V)\<rceil>"

text \<open>The value of a string of decimal digits.\<close>

definition nat_of_str :: "string \<Rightarrow> nat" where
  "nat_of_str s = foldl (\<lambda>a c. 10 * a + (of_char c - 48)) 0 s"

text \<open>
  The page texts that the loader chunks, in order: within a file the non-empty texts of
  the pages before the first page whose extraction raises, and nothing for a file that
  fails to open.
\<close>

fun reached :: "page_outcome list \<Rightarrow> string list" where
  "reached [] = []"
| "reached (ExtractFails # pages) = []"
| "reached (Extracted t # pages) = (if t = [] then reached pages else t # reached pages)"

definition file_texts :: "pdf \<Rightarrow> string list" where
  "file_texts f = (case reader f of Inl e \<Rightarrow> [] | Inr pages \<Rightarrow> reached pages)"

definition reached_texts :: "pdf list \<Rightarrow> string list" where
  "reached_texts pdf_files = concat (map file_texts pdf_files)"

text \<open>
  Embedding the documents one after the other, in order: what the two nested loops of
  \<^verbatim>\<open>setup_vector_db\<close> amount to. \<open>world_before\<close> is the world in which the call
  for the document at position \<open>i\<close> is made.
\<close>

fun embed_all :: "'w embed_content \<Rightarrow> string list \<Rightarrow> 'w \<Rightarrow> vector list \<times> 'w" where
  "embed_all ec [] w = ([], w)"
| "embed_all ec (doc # docs) w =
     (case get_gemini_embedding ec doc w of
        (emb, printed, w') \<Rightarrow> (case embed_all ec docs w' of (embs, w'') \<Rightarrow> (emb # embs, w'')))"

definition world_before :: "'w embed_content \<Rightarrow> string list \<Rightarrow> 'w \<Rightarrow> nat \<Rightarrow> 'w" where
  "world_before ec docs w i = snd (embed_all ec (take i docs) w)"

text \<open>A page yields text when extraction returns a non-empty string.\<close>

fun yields_text :: "page_outcome \<Rightarrow> bool" where
  "yields_text (Extracted t) = (t \<noteq> [])"
| "yields_text ExtractFails = False"

definition no_text :: "pdf \<Rightarrow> bool" where
  "no_text f = (case reader f of Inl e \<Rightarrow> True | Inr pages \<Rightarrow> list_all (\<lambda>p. \<not> yields_text p) pages)"

text \<open>The context block of one retrieved entry, written out.\<close>

definition entry_block :: "entry \<Rightarrow> string" where
  "entry_block e =
     ''Content: '' @ document e @ ''\<newline>''
     @ ''Reference: [Source: '' @ source (meta e) @ '', Page: '' @ str_nat (page (meta e)) @ '']''
     @ ''\<newline>\<newline>''"

text \<open>
  An embedding service for the worked instances: the world counts the calls, the call
  made in world 1 raises, every other call returns one vector holding the length of the
  text.
\<close>

definition flaky :: "nat embed_content" where
  "flaky w t = (if w = 1 then Inl ServiceError else Inr [[real (length t)]], w + 1)"

text \<open>
  A generation service for the worked instances: it answers with the model it was asked
  for and the prompt it was given, and counts the call.
\<close>

definition echo :: "nat generate_content" where
  "echo w model prompt = (Inr (model @ '': '' @ prompt), w + 1)"

text \<open>
  The invariant of the loader: the identifiers issued so far are \<open>doc_0\<close> up to the
  counter, and the three lists have the counter's length.
\<close>

definition ids_ok :: "loader_state \<Rightarrow> bool" where
  "ids_ok st \<longleftrightarrow>
     ids st = map (\<lambda>k. ''doc_'' @ str_nat k) [0..<id_counter st]
     \<and> length (documents st) = id_counter st
     \<and> length (metadatas st) = id_counter st"

text \<open>
  The equations of the loops are used by hand, through computation induction, and kept out
  of the simplifier.
\<close>

declare str_nat.simps [simp del] window_loop.simps [simp del] batch_loop.simps [simp del]

section \<open>Properties of the chunker\<close>

subsection \<open>Decimal rendering\<close>

lemma digit_char_val: "d < 10 \<Longrightarrow> of_char (digit_char d) = 48 + d"
proof -
  assume "d < 10"
  then have "d \<in> {0, 1, 2, 3, 4, 5, 6, 7, 8, 9}" by auto
  then show ?thesis by (auto simp: digit_char_def)
qed

lemma nat_of_str_snoc: "nat_of_str (s @ [c]) = 10 * nat_of_str s + (of_char c - 48)"
  by (simp add: nat_of_str_def)

lemma nat_of_str_str_nat: "nat_of_str (str_nat n) = n"
proof (induction n rule: str_nat.induct)
  case (1 n)
  show ?case
  proof (cases "n < 10")
    case True
    then show ?thesis
      by (subst str_nat.simps) (simp add: nat_of_str_def digit_char_val)
  next
    case False
    have m: "n mod 10 < 10" by simp
    from False have "nat_of_str (str_nat n) = 10 * nat_of_str (str_nat (n div 10)) + (of_char (digit_char (n mod 10)) - 48)"
      by (subst str_nat.simps) (simp add: nat_of_str_snoc)
    also have "\<dots> = 10 * (n div 10) + n mod 10"
      using 1[OF False] digit_char_val[OF m] by simp
    finally show ?thesis by simp
  qed
qed

lemma str_nat_inj: "str_nat a = str_nat b \<Longrightarrow> a = b"
  by (metis nat_of_str_str_nat)

lemma distinct_doc_ids: "distinct (map (\<lambda>k. ''doc_'' @ str_nat k) [0..<n])"
  by (simp add: distinct_map inj_on_def str_nat_inj)

subsection \<open>The window loop\<close>

lemma stride_val: "stride = 1500"
  by (simp add: stride_def chunk_size_def overlap_def)

lemma window_count_step: "i < L \<Longrightarrow> window_count i L = Suc (window_count (i + stride) L)"
  unfolding window_count_def stride_val by (cases "i + 1500 \<le> L") auto

lemma window_count_done: "\<not> i < L \<Longrightarrow> window_count i L = 0"
  unfolding window_count_def stride_val by simp

lemma window_count_0: "window_count 0 L = (L + 1499) div 1500"
  unfolding window_count_def stride_val by simp

lemma window_count_less: "(k < window_count 0 L) = (1500 * k < L)"
proof -
  have "(k < (L + 1499) div 1500) = (Suc k \<le> (L + 1499) div 1500)" by auto
  also have "\<dots> = (Suc k * 1500 \<le> L + 1499)"
    by (rule less_eq_div_iff_mult_less_eq) simp
  also have "\<dots> = (1500 * k < L)" by auto
  finally show ?thesis unfolding window_count_0 .
qed

lemma appended_step:
  assumes "i < length pt"
  shows "appended filename page_num pt (i + stride)
           (st\<lparr>documents := documents st @ [take chunk_size (drop i pt)],
               metadatas := metadatas st @ [\<lparr>source = filename, page = page_num + 1\<rparr>],
               ids := ids st @ [''doc_'' @ str_nat (id_counter st)],
               id_counter := id_counter st + 1\<rparr>)
         = appended filename page_num pt i st"
proof -
  have wc: "window_count i (length pt) = Suc (window_count (i + stride) (length pt))"
    using assms by (rule window_count_step)
  show ?thesis
    unfolding appended_def Let_def wc map_upt_Suc replicate_Suc
    by (simp add: replicate_app_Cons_same add.assoc)
qed

lemma window_loop_appended: "window_loop filename page_num pt i st = appended filename page_num pt i st"
proof (induction filename page_num pt i st rule: window_loop.induct)
  case (1 filename page_num pt i st)
  show ?case
  proof (cases "i < length pt")
    case True
    have "window_loop filename page_num pt i st =
          window_loop filename page_num pt (i + (chunk_size - overlap))
          (st\<lparr>documents := documents st @ [take chunk_size (drop i pt)],
              metadatas := metadatas st @ [\<lparr>source = filename, page = page_num + 1\<rparr>],
              ids := ids st @ [''doc_'' @ str_nat (id_counter st)],
              id_counter := id_counter st + 1\<rparr>)"
      using True by (subst window_loop.simps) (simp only: if_True)
    also have "\<dots> = appended filename page_num pt (i + (chunk_size - overlap))
          (st\<lparr>documents := documents st @ [take chunk_size (drop i pt)],
              metadatas := metadatas st @ [\<lparr>source = filename, page = page_num + 1\<rparr>],
              ids := ids st @ [''doc_'' @ str_nat (id_counter st)],
              id_counter := id_counter st + 1\<rparr>)"
      by (rule 1[OF True])
    also have "\<dots> = appended filename page_num pt i st"
      using appended_step[OF True] by (simp only: stride_def)
    finally show ?thesis .
  next
    case False
    then show ?thesis
      by (subst window_loop.simps) (simp add: appended_def window_count_done)
  qed
qed

lemma window_loop_documents:
  "documents (window_loop filename page_num pt 0 st) = documents st @ windows pt"
  by (simp add: window_loop_appended appended_def windows_def Let_def)

lemma windows_explicit:
  "windows pt = map (\<lambda>k. take 2000 (drop (1500 * k) pt)) [0..<(length pt + 1499) div 1500]"
  by (simp add: windows_def window_count_0 stride_val chunk_size_def)

lemma length_windows: "length (windows pt) = (length pt + 1499) div 1500"
  by (simp add: windows_explicit)

lemma ceiling_div_1500: "\<lceil>real n / 1500\<rceil> = int ((n + 1499) div 1500)"
proof (rule ceiling_unique)
  let ?m = "(n + 1499) div 1500"
  have a: "1500 * ?m \<le> n + 1499" by simp
  have b: "n + 1499 < 1500 + 1500 * ?m"
    using dividend_less_times_div[of 1500 "n + 1499"] by simp
  have a': "1500 * real ?m \<le> real n + 1499"
    using of_nat_mono[OF a, where 'a = real] by simp
  have b': "real n + 1499 < 1500 + 1500 * real ?m"
    using of_nat_less_iff[where 'a = real, THEN iffD2, OF b] by simp
  show "of_int (int ?m) - 1 < real n / 1500" using a' by simp
  show "real n / 1500 \<le> of_int (int ?m)" using b' by simp
qed

subsection \<open>Invariant\<close>

lemma upt_shift: "[c..<c + n] = map (\<lambda>k. c + k) [0..<n]"
  by (induction n) simp_all

lemma ids_ok_appended:
  assumes "ids_ok st"
  shows "ids_ok (appended filename page_num pt i st)"
proof -
  let ?c = "id_counter st" and ?n = "window_count i (length pt)"
  have 1: "ids st = map (\<lambda>k. ''doc_'' @ str_nat k) [0..<?c]"
    and 2: "length (documents st) = ?c" and 3: "length (metadatas st) = ?c"
    using assms by (simp_all add: ids_ok_def)
  have "[0..<?c + ?n] = [0..<?c] @ map (\<lambda>k. ?c + k) [0..<?n]"
    by (simp only: upt_add_eq_append[OF le0] upt_shift)
  then have 4: "map (\<lambda>k. ''doc_'' @ str_nat k) [0..<?c + ?n]
        = ids st @ map (\<lambda>k. ''doc_'' @ str_nat (?c + k)) [0..<?n]"
    by (simp only: 1 map_append map_map comp_def)
  show ?thesis
    unfolding ids_ok_def appended_def Let_def
    using 4 2 3 by simp
qed

lemma ids_ok_page_loop: "ids_ok st \<Longrightarrow> ids_ok (fst (page_loop filename page_num pages st))"
  by (induction filename page_num pages st rule: page_loop.induct)
     (simp_all add: window_loop_appended ids_ok_appended)

lemma ids_ok_process_file: "ids_ok st \<Longrightarrow> ids_ok (process_file f st)"
  by (simp add: process_file_def Let_def ids_ok_page_loop split: sum.splits)

lemma ids_ok_file_loop: "ids_ok st \<Longrightarrow> ids_ok (file_loop fs st)"
  by (induction fs arbitrary: st) (simp_all add: ids_ok_process_file)

lemma ids_ok_init: "ids_ok \<lparr>documents = [], metadatas = [], ids = [], id_counter = 0\<rparr>"
  by (simp add: ids_ok_def)

subsection \<open>One page, end to end\<close>

lemma str_nat_digit: "n < 10 \<Longrightarrow> str_nat n = [digit_char n]"
  by (subst str_nat.simps) simp

lemma load_single_page:
  assumes "pt \<noteq> []"
  shows "load_and_chunk_pdfs [\<lparr>pdf_file = p, reader = Inr [Extracted pt]\<rparr>] =
     (Some (windows pt),
      Some (replicate (length (windows pt)) \<lparr>source = basename p, page = 1\<rparr>),
      Some (map (\<lambda>k. ''doc_'' @ str_nat k) [0..<length (windows pt)]))"
  using assms
  by (simp add: load_and_chunk_pdfs_def process_file_def window_loop_appended appended_def
        Let_def windows_def)

lemma windows_2200:
  assumes "length pt = 2200"
  shows "windows pt = [take 2000 pt, drop 1500 pt]"
proof -
  have n: "(length pt + 1499) div 1500 = Suc (Suc 0)" using assms by simp
  have "[0..<Suc (Suc 0)] = [0, Suc 0]" by (simp add: upt_rec)
  then show ?thesis
    unfolding windows_explicit n using assms by simp
qed

lemma upt_0_2: "[0..<2] = [0, Suc 0]"
  by (simp add: upt_rec)

subsection \<open>The chunks of a whole run\<close>

lemma page_loop_documents:
  "documents (fst (page_loop filename page_num pages st))
     = documents st @ concat (map windows (reached pages))"
  by (induction filename page_num pages st rule: page_loop.induct)
     (simp_all add: window_loop_documents)

lemma process_file_documents:
  "documents (process_file f st) = documents st @ concat (map windows (file_texts f))"
  by (simp add: process_file_def file_texts_def Let_def page_loop_documents split: sum.splits)

lemma file_loop_documents:
  "documents (file_loop fs st) = documents st @ concat (map windows (reached_texts fs))"
  by (induction fs arbitrary: st) (simp_all add: process_file_documents reached_texts_def)

lemma load_documents:
  "pdf_files \<noteq> [] \<Longrightarrow>
     fst (load_and_chunk_pdfs pdf_files) = Some (concat (map windows (reached_texts pdf_files)))"
  by (simp add: load_and_chunk_pdfs_def Let_def file_loop_documents)

lemma reached_nonempty: "t \<in> set (reached pages) \<Longrightarrow> t \<noteq> []"
  by (induction pages rule: reached.induct) (auto split: if_splits)

lemma reached_texts_nonempty: "t \<in> set (reached_texts pdf_files) \<Longrightarrow> t \<noteq> []"
  by (auto simp: reached_texts_def file_texts_def dest: reached_nonempty split: sum.splits)

lemma windows_count_ceiling:
  "int (length (windows t)) = \<lceil>real (length t) / real (chunk_size - overlap)\<rceil>"
  by (simp add: length_windows ceiling_div_1500 chunk_size_def overlap_def)

lemma windows_single:
  "(length (windows t) = 1) = (0 < length t \<and> length t \<le> chunk_size - overlap)"
proof -
  have a: "(0 < window_count 0 (length t)) = (0 < length t)"
    using window_count_less[of 0 "length t"] by simp
  have b: "(1 < window_count 0 (length t)) = (1500 < length t)"
    using window_count_less[of 1 "length t"] by simp
  have "(window_count 0 (length t) = 1) = (0 < length t \<and> length t \<le> 1500)"
    using a b by linarith
  then show ?thesis
    by (simp add: length_windows window_count_0 chunk_size_def overlap_def)
qed

section \<open>Claims about the chunker\<close>

text \<open>
  Claim C1, as amended. From every page text of length \<open>L\<close> that it chunks, the loader
  produces exactly \<open>\<lceil>L / (T - O)\<rceil>\<close> chunks, with \<open>T = 2000\<close> and \<open>O = 500\<close>, that is
  the ceiling of \<open>L / 1500\<close>, and exactly one chunk precisely when \<open>L \<le> 1500\<close>: the
  documents returned by \<^verbatim>\<open>load_and_chunk_pdfs\<close> are the concatenation of one group
  of chunks per chunked page, in order, and each group has that size. Every chunked page
  has \<open>L > 0\<close>. The first conjunct says the same of the window loop alone, from any
  state.
\<close>

theorem chunk_count:
  "(\<exists>chunks. documents (window_loop filename page_num pt 0 st) = documents st @ chunks
     \<and> int (length chunks) = \<lceil>real (length pt) / real (chunk_size - overlap)\<rceil>
     \<and> (length chunks = 1) = (0 < length pt \<and> length pt \<le> chunk_size - overlap))
   \<and> (pdf_files \<noteq> [] \<longrightarrow>
        (\<exists>per_page.
           fst (load_and_chunk_pdfs pdf_files) = Some (concat per_page)
           \<and> map (\<lambda>chunks. int (length chunks)) per_page
               = map (\<lambda>t. \<lceil>real (length t) / real (chunk_size - overlap)\<rceil>) (reached_texts pdf_files)
           \<and> map (\<lambda>chunks. length chunks = 1) per_page
               = map (\<lambda>t. length t \<le> chunk_size - overlap) (reached_texts pdf_files)
           \<and> list_all (\<lambda>t. 0 < length t) (reached_texts pdf_files)))"
proof (intro conjI impI)
  show "\<exists>chunks. documents (window_loop filename page_num pt 0 st) = documents st @ chunks
     \<and> int (length chunks) = \<lceil>real (length pt) / real (chunk_size - overlap)\<rceil>
     \<and> (length chunks = 1) = (0 < length pt \<and> length pt \<le> chunk_size - overlap)"
    using window_loop_documents windows_count_ceiling windows_single by blast
next
  assume ne: "pdf_files \<noteq> []"
  let ?ts = "reached_texts pdf_files"
  have pos: "list_all (\<lambda>t. 0 < length t) ?ts"
    using reached_texts_nonempty by (auto simp: list_all_iff)
  have 1: "map (\<lambda>chunks. int (length chunks)) (map windows ?ts)
             = map (\<lambda>t. \<lceil>real (length t) / real (chunk_size - overlap)\<rceil>) ?ts"
    by (simp add: windows_count_ceiling)
  have s: "(length (windows t) = 1) = (length t \<le> chunk_size - overlap)"
    if "t \<in> set ?ts" for t
    using that reached_texts_nonempty[of t pdf_files] windows_single[of t] by simp
  have 2: "map (\<lambda>chunks. length chunks = 1) (map windows ?ts)
             = map (\<lambda>t. length t \<le> chunk_size - overlap) ?ts"
    unfolding map_map comp_def by (rule map_cong[OF refl]) (rule s)
  show "\<exists>per_page.
           fst (load_and_chunk_pdfs pdf_files) = Some (concat per_page)
           \<and> map (\<lambda>chunks. int (length chunks)) per_page
               = map (\<lambda>t. \<lceil>real (length t) / real (chunk_size - overlap)\<rceil>) ?ts
           \<and> map (\<lambda>chunks. length chunks = 1) per_page
               = map (\<lambda>t. length t \<le> chunk_size - overlap) ?ts
           \<and> list_all (\<lambda>t. 0 < length t) ?ts"
    using load_documents[OF ne] 1 2 pos by blast
qed

theorem chunk_count_witness:
  "\<exists>per_page.
     fst (load_and_chunk_pdfs
            [\<lparr>pdf_file = ''pdfs/a.pdf'',
              reader = Inr [Extracted (replicate 1501 (CHR ''x'')), Extracted [],
                            Extracted ''chapter'']\<rparr>,
             \<lparr>pdf_file = ''pdfs/b.pdf'', reader = Inr [Extracted (replicate 3000 (CHR ''y''))]\<rparr>])
       = Some (concat per_page)
     \<and> map (\<lambda>chunks. int (length chunks)) per_page = [2, 1, 2]
     \<and> map (\<lambda>chunks. length chunks = 1) per_page = [False, True, False]"
  using chunk_count[of "''f''" 0 "[]" "\<lparr>documents = [], metadatas = [], ids = [], id_counter = 0\<rparr>"
      "[\<lparr>pdf_file = ''pdfs/a.pdf'',
              reader = Inr [Extracted (replicate 1501 (CHR ''x'')), Extracted [],
                            Extracted ''chapter'']\<rparr>,
             \<lparr>pdf_file = ''pdfs/b.pdf'', reader = Inr [Extracted (replicate 3000 (CHR ''y''))]\<rparr>]"]
  by (simp add: reached_texts_def file_texts_def chunk_size_def overlap_def)

text \<open>
  Claim C1 as the specification states it fails: a page of 1501 characters is no longer
  than the target size 2000 and the stated formula \<open>\<lceil>max (L - O) 1 / (T - O)\<rceil>\<close>
  gives 1 for it, yet the loader returns two chunks, the whole text and its last character.
\<close>

theorem chunk_count_counterexample:
  "fst (load_and_chunk_pdfs
          [\<lparr>pdf_file = ''pdfs/a.pdf'', reader = Inr [Extracted (replicate 1501 (CHR ''x''))]\<rparr>])
     = Some [replicate 1501 (CHR ''x''), [CHR ''x'']]
   \<and> (1501::nat) \<le> chunk_size
   \<and> spec_chunk_count 1501 (int chunk_size) (int overlap) = 1"
proof -
  have ne: "replicate 1501 (CHR ''x'') \<noteq> []" by simp
  have "[0..<2] = [0, Suc 0]" by (simp add: upt_rec)
  then have "windows (replicate 1501 (CHR ''x'')) = [replicate 1501 (CHR ''x''), [CHR ''x'']]"
    by (simp add: windows_explicit)
  then show ?thesis
    unfolding load_single_page[OF ne]
    by (simp add: spec_chunk_count_def chunk_size_def overlap_def)
qed

text \<open>
  Claim C2. The chunks produced for a page are exactly the slices
  \<^verbatim>\<open>text[i : i + 2000]\<close> at the window starts \<open>i = 0, 1500, 3000, \<dots>\<close> below the
  length of the text (the \<open>k\<close>-th start is \<open>1500 * k\<close>, and \<open>k\<close> is a window index
  exactly when \<open>1500 * k\<close> is below the length); a slice near the end is shorter than
  2000. This holds of the window loop from any state, and of the loader as a whole: the
  documents returned by \<^verbatim>\<open>load_and_chunk_pdfs\<close> are these slices of every chunked
  page, page after page and file after file. A single page of 2200 characters yields
  exactly the two chunks \<open>[0:2000)\<close> and \<open>[1500:2200)\<close>, tagged with the file name and
  page 1, with identifiers \<open>doc_0\<close> and \<open>doc_1\<close>.
\<close>

theorem chunks_are_windows:
  "documents (window_loop filename page_num pt 0 st)
     = documents st @ map (\<lambda>k. take 2000 (drop (1500 * k) pt)) [0..<(length pt + 1499) div 1500]
   \<and> (\<forall>k. (k < (length pt + 1499) div 1500) = (1500 * k < length pt))
   \<and> (pdf_files \<noteq> [] \<longrightarrow>
        fst (load_and_chunk_pdfs pdf_files)
          = Some (concat (map (\<lambda>t. map (\<lambda>k. take 2000 (drop (1500 * k) t))
                                       [0..<(length t + 1499) div 1500])
                              (reached_texts pdf_files))))
   \<and> (length pt = 2200 \<longrightarrow>
        load_and_chunk_pdfs [\<lparr>pdf_file = p, reader = Inr [Extracted pt]\<rparr>] =
          (Some [take 2000 pt, drop 1500 pt],
           Some [\<lparr>source = basename p, page = 1\<rparr>, \<lparr>source = basename p, page = 1\<rparr>],
           Some [''doc_0'', ''doc_1'']))"
proof (intro conjI allI impI)
  show "documents (window_loop filename page_num pt 0 st)
     = documents st @ map (\<lambda>k. take 2000 (drop (1500 * k) pt)) [0..<(length pt + 1499) div 1500]"
    by (simp only: window_loop_documents windows_explicit)
next
  fix k show "(k < (length pt + 1499) div 1500) = (1500 * k < length pt)"
    using window_count_less[of k "length pt"] by (simp only: window_count_0)
next
  assume ne: "pdf_files \<noteq> []"
  have "windows = (\<lambda>t. map (\<lambda>k. take 2000 (drop (1500 * k) t)) [0..<(length t + 1499) div 1500])"
    by (rule ext) (rule windows_explicit)
  then show "fst (load_and_chunk_pdfs pdf_files)
          = Some (concat (map (\<lambda>t. map (\<lambda>k. take 2000 (drop (1500 * k) t))
                                       [0..<(length t + 1499) div 1500])
                              (reached_texts pdf_files)))"
    using load_documents[OF ne] by simp
next
  assume L: "length pt = 2200"
  then have ne: "pt \<noteq> []" by auto
  have "[0..<Suc (Suc 0)] = [0, Suc 0]" by (simp add: upt_rec)
  then show "load_and_chunk_pdfs [\<lparr>pdf_file = p, reader = Inr [Extracted pt]\<rparr>] =
          (Some [take 2000 pt, drop 1500 pt],
           Some [\<lparr>source = basename p, page = 1\<rparr>, \<lparr>source = basename p, page = 1\<rparr>],
           Some [''doc_0'', ''doc_1''])"
    unfolding load_single_page[OF ne] windows_2200[OF L]
    by (simp add: str_nat_digit digit_char_def)
qed

theorem chunks_are_windows_witness:
  "load_and_chunk_pdfs
     [\<lparr>pdf_file = ''pdfs/report.pdf'', reader = Inr [Extracted (replicate 2200 (CHR ''x''))]\<rparr>] =
     (Some [replicate 2000 (CHR ''x''), replicate 700 (CHR ''x'')],
      Some [\<lparr>source = ''report.pdf'', page = 1\<rparr>, \<lparr>source = ''report.pdf'', page = 1\<rparr>],
      Some [''doc_0'', ''doc_1''])
   \<and> fst (load_and_chunk_pdfs
       [\<lparr>pdf_file = ''pdfs/a.pdf'', reader = Inr [Extracted ''hello'', Extracted ''world'']\<rparr>,
        \<lparr>pdf_file = ''pdfs/bad.pdf'', reader = Inl ParseError\<rparr>,
        \<lparr>pdf_file = ''pdfs/c.pdf'', reader = Inr [Extracted (replicate 1501 (CHR ''y''))]\<rparr>])
     = Some [''hello'', ''world'', replicate 1501 (CHR ''y''), [CHR ''y'']]"
proof -
  have a: "load_and_chunk_pdfs
     [\<lparr>pdf_file = ''pdfs/report.pdf'', reader = Inr [Extracted (replicate 2200 (CHR ''x''))]\<rparr>] =
     (Some [replicate 2000 (CHR ''x''), replicate 700 (CHR ''x'')],
      Some [\<lparr>source = ''report.pdf'', page = 1\<rparr>, \<lparr>source = ''report.pdf'', page = 1\<rparr>],
      Some [''doc_0'', ''doc_1''])"
    using chunks_are_windows[of "''f''" 0 "replicate 2200 (CHR ''x'')"
      "\<lparr>documents = [], metadatas = [], ids = [], id_counter = 0\<rparr>" "[]" "''pdfs/report.pdf''"]
    by (simp add: basename_def)
  have b: "fst (load_and_chunk_pdfs
       [\<lparr>pdf_file = ''pdfs/a.pdf'', reader = Inr [Extracted ''hello'', Extracted ''world'']\<rparr>,
        \<lparr>pdf_file = ''pdfs/bad.pdf'', reader = Inl ParseError\<rparr>,
        \<lparr>pdf_file = ''pdfs/c.pdf'', reader = Inr [Extracted (replicate 1501 (CHR ''y''))]\<rparr>])
     = Some [''hello'', ''world'', replicate 1501 (CHR ''y''), [CHR ''y'']]"
    using chunks_are_windows[of "''f''" 0 "[]"
      "\<lparr>documents = [], metadatas = [], ids = [], id_counter = 0\<rparr>"
      "[\<lparr>pdf_file = ''pdfs/a.pdf'', reader = Inr [Extracted ''hello'', Extracted ''world'']\<rparr>,
        \<lparr>pdf_file = ''pdfs/bad.pdf'', reader = Inl ParseError\<rparr>,
        \<lparr>pdf_file = ''pdfs/c.pdf'', reader = Inr [Extracted (replicate 1501 (CHR ''y''))]\<rparr>]" "[]"]
    by (simp add: reached_texts_def file_texts_def upt_0_2)
  from a b show ?thesis by (rule conjI)
qed


text \<open>
  Claim C10. When the length \<open>L\<close> of a page text exceeds 1500 and \<open>0 < L mod 1500 \<le> 500\<close>,
  the last chunk appended for the page is a non-empty suffix of the chunk before it: it
  is that chunk without its first 1500 characters, and adds no new text.
\<close>

theorem last_chunk_redundant:
  assumes "1500 < length pt" and "0 < length pt mod 1500" and "length pt mod 1500 \<le> 500"
  shows "\<exists>pre prev lst.
           documents (window_loop filename page_num pt 0 st) = documents st @ pre @ [prev, lst]
           \<and> lst = drop 1500 prev \<and> suffix lst prev \<and> lst \<noteq> []"
proof -
  define q where "q = length pt div 1500"
  define r where "r = length pt mod 1500"
  have L: "length pt = 1500 * q + r" by (simp add: q_def r_def)
  have r: "0 < r" "r \<le> 500" using assms by (simp_all add: r_def)
  have q: "1 \<le> q" using L assms(1) r by linarith
  define m where "m = q - 1"
  have qm: "q = Suc m" using q by (simp add: m_def)
  let ?n = "window_count 0 (length pt)"
  have "q < ?n" unfolding window_count_less using L r by linarith
  moreover have "\<not> Suc q < ?n" unfolding window_count_less using L r by simp
  ultimately have n: "?n = Suc (Suc m)" using qm by linarith
  let ?f = "\<lambda>k. take 2000 (drop (1500 * k) pt)"
  have "[0..<Suc (Suc m)] = [0..<m] @ [m, Suc m]" by simp
  then have w: "windows pt = map ?f [0..<m] @ [?f m, ?f (Suc m)]"
    unfolding windows_explicit window_count_0[symmetric] n by simp
  have len: "length (drop (1500 * Suc m) pt) \<le> 500" using L r qm by simp
  have ne: "drop (1500 * Suc m) pt \<noteq> []" using L r qm by simp
  have lst: "?f (Suc m) = drop (1500 * Suc m) pt" using len by simp
  have "drop 1500 (?f m) = take 500 (drop (1500 * Suc m) pt)"
    by (simp add: drop_take add.commute)
  also have "\<dots> = drop (1500 * Suc m) pt" using len by simp
  finally have d: "?f (Suc m) = drop 1500 (?f m)" using lst by simp
  have "documents (window_loop filename page_num pt 0 st)
         = documents st @ map ?f [0..<m] @ [?f m, ?f (Suc m)]"
    by (simp only: window_loop_documents w)
  moreover have "suffix (?f (Suc m)) (?f m)" by (subst d) (rule suffix_drop)
  moreover have "?f (Suc m) \<noteq> []" using lst ne by simp
  ultimately show ?thesis using d by blast
qed

theorem last_chunk_redundant_witness:
  "(1500::nat) < length (replicate 1700 (CHR ''x''))
   \<and> (\<exists>pre prev lst.
         documents (window_loop ''a.pdf'' 0 (replicate 1700 (CHR ''x'')) 0
                     \<lparr>documents = [], metadatas = [], ids = [], id_counter = 0\<rparr>)
           = pre @ [prev, lst]
         \<and> lst = drop 1500 prev \<and> suffix lst prev \<and> lst \<noteq> [])"
  using last_chunk_redundant[of "replicate 1700 (CHR ''x'')" "''a.pdf''" 0
      "\<lparr>documents = [], metadatas = [], ids = [], id_counter = 0\<rparr>"]
  by simp

text \<open>
  Claim C3. Whenever the loader returns lists, the identifiers are exactly
  \<open>doc_0, doc_1, \<dots>, doc_(n-1)\<close> in order, \<open>n\<close> being the number of chunks: one
  counter spans all files and pages, files that fail to open and pages that fail to
  extract included. The identifiers are pairwise distinct, and there is one metadata
  entry per chunk.
\<close>

theorem ids_contiguous:
  "load_and_chunk_pdfs pdf_files = (Some docs, Some metas, Some idents) \<Longrightarrow>
     idents = map (\<lambda>k. ''doc_'' @ str_nat k) [0..<length docs]
     \<and> distinct idents \<and> length metas = length docs"
proof -
  assume a: "load_and_chunk_pdfs pdf_files = (Some docs, Some metas, Some idents)"
  let ?st = "file_loop pdf_files \<lparr>documents = [], metadatas = [], ids = [], id_counter = 0\<rparr>"
  have ok: "ids_ok ?st" by (rule ids_ok_file_loop[OF ids_ok_init])
  from a have "docs = documents ?st" "metas = metadatas ?st" "idents = ids ?st"
    by (auto simp: load_and_chunk_pdfs_def Let_def split: if_splits)
  with ok have "idents = map (\<lambda>k. ''doc_'' @ str_nat k) [0..<length docs]" "length metas = length docs"
    by (simp_all add: ids_ok_def)
  then show ?thesis using distinct_doc_ids by simp
qed

theorem ids_contiguous_witness:
  "load_and_chunk_pdfs
     [\<lparr>pdf_file = ''pdfs/a.pdf'', reader = Inr [Extracted ''hello'']\<rparr>,
      \<lparr>pdf_file = ''pdfs/bad.pdf'', reader = Inl ParseError\<rparr>,
      \<lparr>pdf_file = ''pdfs/sub/c.pdf'',
       reader = Inr [Extracted [], Extracted ''world'', ExtractFails, Extracted ''lost'']\<rparr>]
     = (Some [''hello'', ''world''],
        Some [\<lparr>source = ''a.pdf'', page = 1\<rparr>, \<lparr>source = ''c.pdf'', page = 2\<rparr>],
        Some [''doc_0'', ''doc_1''])
   \<and> [''doc_0'', ''doc_1''] = map (\<lambda>k. ''doc_'' @ str_nat k) [0..<length [''hello'', ''world'']]
   \<and> distinct [''doc_0'', ''doc_1'']"
proof -
  have e: "load_and_chunk_pdfs
     [\<lparr>pdf_file = ''pdfs/a.pdf'', reader = Inr [Extracted ''hello'']\<rparr>,
      \<lparr>pdf_file = ''pdfs/bad.pdf'', reader = Inl ParseError\<rparr>,
      \<lparr>pdf_file = ''pdfs/sub/c.pdf'',
       reader = Inr [Extracted [], Extracted ''world'', ExtractFails, Extracted ''lost'']\<rparr>]
     = (Some [''hello'', ''world''],
        Some [\<lparr>source = ''a.pdf'', page = 1\<rparr>, \<lparr>source = ''c.pdf'', page = 2\<rparr>],
        Some [''doc_0'', ''doc_1''])"
    by (simp add: load_and_chunk_pdfs_def process_file_def basename_def window_loop_appended
          appended_def window_count_def stride_def chunk_size_def overlap_def Let_def
          str_nat_digit digit_char_def)
  from ids_contiguous[OF e] e show ?thesis by (simp add: str_nat_digit digit_char_def)
qed


section \<open>Properties of the embedder and of the index\<close>

subsection \<open>Embedding in batches is embedding in order\<close>

lemma get_gemini_embedding_fail:
  "fst (ec w t) = Inl e \<Longrightarrow> get_gemini_embedding ec t w = ([], Some e, snd (ec w t))"
  by (cases "ec w t") (simp add: get_gemini_embedding_def)

lemma get_gemini_embedding_ok:
  "fst (ec w t) = Inr (v # vs) \<Longrightarrow> get_gemini_embedding ec t w = (v, None, snd (ec w t))"
  by (cases "ec w t") (simp add: get_gemini_embedding_def)

lemma embed_batch_embed_all:
  "embed_batch ec ds acc w = (acc @ fst (embed_all ec ds w), snd (embed_all ec ds w))"
  by (induction ds arbitrary: acc w) (simp_all split: prod.splits)

lemma embed_all_append:
  "embed_all ec (xs @ ys) w =
     (fst (embed_all ec xs w) @ fst (embed_all ec ys (snd (embed_all ec xs w))),
      snd (embed_all ec ys (snd (embed_all ec xs w))))"
  by (induction xs arbitrary: w) (simp_all split: prod.splits)

lemma batch_loop_embed_all:
  "batch_loop ec docs i acc w =
     (acc @ fst (embed_all ec (drop i docs) w), snd (embed_all ec (drop i docs) w))"
proof (induction ec docs i acc w rule: batch_loop.induct)
  case (1 ec docs i acc w)
  show ?case
  proof (cases "i < length docs")
    case True
    let ?b = "take batch_size (drop i docs)"
    let ?a = "fst (embed_all ec ?b w)" and ?w1 = "snd (embed_all ec ?b w)"
    have eb: "embed_batch ec ?b acc w = (acc @ ?a, ?w1)"
      by (rule embed_batch_embed_all)
    have IH: "batch_loop ec docs (i + batch_size) (acc @ ?a) ?w1 =
        ((acc @ ?a) @ fst (embed_all ec (drop (i + batch_size) docs) ?w1),
         snd (embed_all ec (drop (i + batch_size) docs) ?w1))"
      using "1.IH"[OF True eb[symmetric]] .
    have sp: "drop i docs = ?b @ drop (i + batch_size) docs"
      using append_take_drop_id[of batch_size "drop i docs"] by (simp add: add.commute)
    have "batch_loop ec docs i acc w = batch_loop ec docs (i + batch_size) (acc @ ?a) ?w1"
      using True by (subst batch_loop.simps) (simp add: eb)
    also note IH
    also have "((acc @ ?a) @ fst (embed_all ec (drop (i + batch_size) docs) ?w1),
         snd (embed_all ec (drop (i + batch_size) docs) ?w1))
       = (acc @ fst (embed_all ec (drop i docs) w), snd (embed_all ec (drop i docs) w))"
      by (subst (3 4) sp) (simp add: embed_all_append)
    finally show ?thesis .
  next
    case False
    then show ?thesis by (subst batch_loop.simps) simp
  qed
qed

lemma embed_all_Cons:
  "embed_all ec (d # ds) w =
     (fst (get_gemini_embedding ec d w)
        # fst (embed_all ec ds (snd (snd (get_gemini_embedding ec d w)))),
      snd (embed_all ec ds (snd (snd (get_gemini_embedding ec d w)))))"
  by (simp split: prod.splits)

lemma length_embed_all: "length (fst (embed_all ec docs w)) = length docs"
  by (induction docs arbitrary: w) (simp_all add: embed_all_Cons del: embed_all.simps(2))

lemma embed_all_nth:
  "i < length docs \<Longrightarrow>
     fst (embed_all ec docs w) ! i = fst (get_gemini_embedding ec (docs ! i) (world_before ec docs w i))"
proof (induction docs arbitrary: w i)
  case Nil
  then show ?case by simp
next
  case (Cons d ds)
  let ?w' = "snd (snd (get_gemini_embedding ec d w))"
  show ?case
  proof (cases i)
    case 0
    then show ?thesis
      by (simp add: world_before_def embed_all_Cons del: embed_all.simps(2))
  next
    case (Suc j)
    with Cons.prems have j: "j < length ds" by simp
    have wb: "world_before ec (d # ds) w (Suc j) = world_before ec ds ?w' j"
      by (simp add: world_before_def embed_all_Cons del: embed_all.simps(2))
    have "fst (embed_all ec (d # ds) w) ! Suc j = fst (embed_all ec ds ?w') ! j"
      by (simp add: embed_all_Cons del: embed_all.simps(2))
    with Cons.IH[OF j, of ?w'] wb Suc show ?thesis by simp
  qed
qed

subsection \<open>Rebuilding the collection\<close>

lemma drop_collection_eq: "drop_collection db = db(collection_name := None)"
  by (auto simp: drop_collection_def delete_collection_def split: option.splits)

lemma rebuild_empty:
  "create_collection collection_name (drop_collection db) = Inr (db(collection_name \<mapsto> []))"
  by (simp add: drop_collection_eq create_collection_def)

lemma setup_vector_db_ok:
  assumes "length metas = length docs" "length idents = length docs" "distinct idents"
  shows "setup_vector_db ec docs metas idents w db =
     (Inr collection_name, snd (embed_all ec docs w),
      db(collection_name \<mapsto> make_entries idents (fst (embed_all ec docs w)) docs metas))"
  using assms length_embed_all[of ec docs w]
  by (auto simp: setup_vector_db_def rebuild_empty batch_loop_embed_all collection_add_def
        split: prod.splits)

lemma setup_vector_db_replace:
  "setup_vector_db ec docs metas idents w (db(collection_name := old))
     = setup_vector_db ec docs metas idents w db"
proof -
  have "drop_collection (db(collection_name := old)) = drop_collection db"
    by (simp add: drop_collection_eq)
  then show ?thesis by (simp only: setup_vector_db_def)
qed

lemma make_entries_nth:
  assumes "i < length idents" "length embs = length idents" "length docs = length idents"
    "length metas = length idents"
  shows "make_entries idents embs docs metas ! i
     = \<lparr>entry_id = idents ! i, embedding = embs ! i, document = docs ! i, meta = metas ! i\<rparr>"
  using assms by (simp add: make_entries_def)

subsection \<open>Files without text\<close>

lemma page_loop_no_text:
  "list_all (\<lambda>p. \<not> yields_text p) pages \<Longrightarrow> fst (page_loop filename page_num pages st) = st"
  by (induction filename page_num pages st rule: page_loop.induct) simp_all

lemma process_file_no_text: "no_text f \<Longrightarrow> process_file f st = st"
  by (simp add: process_file_def no_text_def Let_def page_loop_no_text split: sum.splits)

lemma file_loop_no_text: "list_all no_text fs \<Longrightarrow> file_loop fs st = st"
  by (induction fs arbitrary: st) (simp_all add: process_file_no_text)

subsection \<open>The orchestrator on files with text\<close>

lemma load_lists_ok:
  assumes "load_and_chunk_pdfs pdf_files = (Some docs, Some metas, Some idents)"
  shows "length metas = length docs" "length idents = length docs" "distinct idents"
proof -
  let ?st = "file_loop pdf_files \<lparr>documents = [], metadatas = [], ids = [], id_counter = 0\<rparr>"
  have ok: "ids_ok ?st" by (rule ids_ok_file_loop[OF ids_ok_init])
  from assms have e: "docs = documents ?st" "metas = metadatas ?st" "idents = ids ?st"
    by (auto simp: load_and_chunk_pdfs_def Let_def split: if_splits)
  from ok e show "length metas = length docs" by (simp add: ids_ok_def)
  from ok e have i: "idents = map (\<lambda>k. ''doc_'' @ str_nat k) [0..<length docs]"
    by (simp add: ids_ok_def)
  then show "length idents = length docs" by simp
  from i show "distinct idents" using distinct_doc_ids by simp
qed

lemma ingest_ok:
  assumes "load_and_chunk_pdfs pdf_files = (Some docs, Some metas, Some idents)" "docs \<noteq> []"
  shows "ingest ec pdf_files w db =
     (Some (Inr collection_name), snd (embed_all ec docs w),
      db(collection_name \<mapsto> make_entries idents (fst (embed_all ec docs w)) docs metas))"
proof -
  have "setup_vector_db ec docs metas idents w db =
     (Inr collection_name, snd (embed_all ec docs w),
      db(collection_name \<mapsto> make_entries idents (fst (embed_all ec docs w)) docs metas))"
    by (rule setup_vector_db_ok) (rule load_lists_ok[OF assms(1)])+
  then show ?thesis using assms by (simp add: ingest_def)
qed

section \<open>Claims about embedding, rebuilding and empty input\<close>

text \<open>
  Claim C4. When the call to the embedding service raises for a text,
  \<^verbatim>\<open>get_gemini_embedding\<close> returns the empty vector, with the exception printed
  and not raised. When the call made for the document at position \<open>i\<close> raises during
  \<^verbatim>\<open>setup_vector_db\<close> (the lists being of equal length and the identifiers
  distinct, as the loader produces them), the function still returns the collection: the
  collection holds one entry per document, the entry at position \<open>i\<close> has the empty
  vector beside its own identifier, text and metadata, and every document whose call
  returned a vector has that vector at its position. And whenever the loader returns
  chunks, the orchestrator completes with the collection rebuilt, one entry per chunk,
  for every behaviour of the embedding service.
\<close>

theorem embedding_failure_tolerated:
  "(fst (ec w t) = Inl e \<longrightarrow> get_gemini_embedding ec t w = ([], Some e, snd (ec w t)))
   \<and> (length metas = length docs \<and> length idents = length docs \<and> distinct idents
        \<and> i < length docs \<and> fst (ec (world_before ec docs w i) (docs ! i)) = Inl e \<longrightarrow>
      (\<exists>embs w' db'.
          setup_vector_db ec docs metas idents w db = (Inr collection_name, w', db')
        \<and> db' collection_name = Some (make_entries idents embs docs metas)
        \<and> length embs = length docs
        \<and> embs ! i = []
        \<and> make_entries idents embs docs metas ! i
            = \<lparr>entry_id = idents ! i, embedding = [], document = docs ! i, meta = metas ! i\<rparr>
        \<and> (\<forall>j<length docs. \<forall>v vs.
              fst (ec (world_before ec docs w j) (docs ! j)) = Inr (v # vs) \<longrightarrow> embs ! j = v)))
   \<and> (load_and_chunk_pdfs pdf_files = (Some docs, Some metas, Some idents) \<and> docs \<noteq> [] \<longrightarrow>
      (\<exists>embs w'.
          ingest ec pdf_files w db
            = (Some (Inr collection_name), w',
               db(collection_name \<mapsto> make_entries idents embs docs metas))
        \<and> length embs = length docs))"
proof (intro conjI impI)
  assume "fst (ec w t) = Inl e"
  then show "get_gemini_embedding ec t w = ([], Some e, snd (ec w t))"
    by (rule get_gemini_embedding_fail)
next
  assume h: "length metas = length docs \<and> length idents = length docs \<and> distinct idents
        \<and> i < length docs \<and> fst (ec (world_before ec docs w i) (docs ! i)) = Inl e"
  let ?embs = "fst (embed_all ec docs w)"
  have len: "length ?embs = length docs" by (rule length_embed_all)
  have i: "i < length docs" using h by simp
  have f: "fst (ec (world_before ec docs w i) (docs ! i)) = Inl e" using h by simp
  have ei: "?embs ! i = []"
    using embed_all_nth[OF i, of ec w]
      get_gemini_embedding_fail[of ec "world_before ec docs w i" "docs ! i" e, OF f] by simp
  have s: "setup_vector_db ec docs metas idents w db =
     (Inr collection_name, snd (embed_all ec docs w),
      db(collection_name \<mapsto> make_entries idents ?embs docs metas))"
    using h by (intro setup_vector_db_ok) blast+
  have n: "make_entries idents ?embs docs metas ! i
            = \<lparr>entry_id = idents ! i, embedding = [], document = docs ! i, meta = metas ! i\<rparr>"
  proof -
    from h have h1: "length metas = length docs" and h2: "length idents = length docs"
      by blast+
    have "make_entries idents ?embs docs metas ! i
            = \<lparr>entry_id = idents ! i, embedding = ?embs ! i, document = docs ! i,
               meta = metas ! i\<rparr>"
      by (rule make_entries_nth) (simp_all add: h1 h2 len i)
    then show ?thesis by (simp only: ei)
  qed
  have dbc: "(db(collection_name \<mapsto> make_entries idents ?embs docs metas)) collection_name
      = Some (make_entries idents ?embs docs metas)"
    by simp
  have others: "\<forall>j<length docs. \<forall>v vs.
      fst (ec (world_before ec docs w j) (docs ! j)) = Inr (v # vs) \<longrightarrow> ?embs ! j = v"
  proof (intro allI impI)
    fix j v vs
    assume j: "j < length docs"
      and ok: "fst (ec (world_before ec docs w j) (docs ! j)) = Inr (v # vs)"
    show "?embs ! j = v"
      using embed_all_nth[OF j, of ec w]
        get_gemini_embedding_ok[of ec "world_before ec docs w j" "docs ! j" v vs, OF ok] by simp
  qed
  show "\<exists>embs w' db'.
          setup_vector_db ec docs metas idents w db = (Inr collection_name, w', db')
        \<and> db' collection_name = Some (make_entries idents embs docs metas)
        \<and> length embs = length docs
        \<and> embs ! i = []
        \<and> make_entries idents embs docs metas ! i
            = \<lparr>entry_id = idents ! i, embedding = [], document = docs ! i, meta = metas ! i\<rparr>
        \<and> (\<forall>j<length docs. \<forall>v vs.
              fst (ec (world_before ec docs w j) (docs ! j)) = Inr (v # vs) \<longrightarrow> embs ! j = v)"
    using s dbc len ei n others by blast
next
  assume "load_and_chunk_pdfs pdf_files = (Some docs, Some metas, Some idents) \<and> docs \<noteq> []"
  then have "ingest ec pdf_files w db =
     (Some (Inr collection_name), snd (embed_all ec docs w),
      db(collection_name \<mapsto> make_entries idents (fst (embed_all ec docs w)) docs metas))"
    by (intro ingest_ok) simp_all
  then show "\<exists>embs w'.
          ingest ec pdf_files w db
            = (Some (Inr collection_name), w',
               db(collection_name \<mapsto> make_entries idents embs docs metas))
        \<and> length embs = length docs"
    using length_embed_all[of ec docs w] by (intro exI conjI) assumption+
qed

theorem embedding_failure_tolerated_witness:
  "(\<exists>embs w' db'.
      setup_vector_db flaky [''a'', ''bb'', ''ccc'']
        [\<lparr>source = ''a.pdf'', page = 1\<rparr>, \<lparr>source = ''a.pdf'', page = 2\<rparr>, \<lparr>source = ''b.pdf'', page = 1\<rparr>]
        [''doc_0'', ''doc_1'', ''doc_2''] 0 Map.empty
        = (Inr collection_name, w', db')
    \<and> length embs = 3
    \<and> db' collection_name = Some (make_entries [''doc_0'', ''doc_1'', ''doc_2''] embs
         [''a'', ''bb'', ''ccc'']
         [\<lparr>source = ''a.pdf'', page = 1\<rparr>, \<lparr>source = ''a.pdf'', page = 2\<rparr>, \<lparr>source = ''b.pdf'', page = 1\<rparr>])
    \<and> embs ! 0 = [1] \<and> embs ! 1 = [] \<and> embs ! 2 = [3])
   \<and> (\<exists>embs w'.
      ingest flaky
        [\<lparr>pdf_file = ''pdfs/a.pdf'', reader = Inr [Extracted ''a'', Extracted ''bb'']\<rparr>,
         \<lparr>pdf_file = ''pdfs/b.pdf'', reader = Inr [Extracted ''ccc'']\<rparr>] 0 Map.empty
        = (Some (Inr collection_name), w',
           Map.empty(collection_name \<mapsto> make_entries [''doc_0'', ''doc_1'', ''doc_2''] embs
             [''a'', ''bb'', ''ccc'']
             [\<lparr>source = ''a.pdf'', page = 1\<rparr>, \<lparr>source = ''a.pdf'', page = 2\<rparr>,
              \<lparr>source = ''b.pdf'', page = 1\<rparr>]))
    \<and> length embs = 3)"
proof -
  let ?files = "[\<lparr>pdf_file = ''pdfs/a.pdf'', reader = Inr [Extracted ''a'', Extracted ''bb'']\<rparr>,
         \<lparr>pdf_file = ''pdfs/b.pdf'', reader = Inr [Extracted ''ccc'']\<rparr>]"
  let ?docs = "[''a'', ''bb'', ''ccc'']"
  let ?metas = "[\<lparr>source = ''a.pdf'', page = 1\<rparr>, \<lparr>source = ''a.pdf'', page = 2\<rparr>,
                 \<lparr>source = ''b.pdf'', page = 1\<rparr>]"
  let ?ids = "[''doc_0'', ''doc_1'', ''doc_2'']"
  have w0: "world_before flaky ?docs 0 0 = 0" by (simp add: world_before_def)
  have t1: "take 1 ?docs = [''a'']" and t2: "take 2 ?docs = [''a'', ''bb'']"
    by simp_all
  have w1: "world_before flaky ?docs 0 1 = 1"
    unfolding world_before_def t1 by (simp add: get_gemini_embedding_def flaky_def)
  have w2: "world_before flaky ?docs 0 2 = 2"
    unfolding world_before_def t2 by (simp add: get_gemini_embedding_def flaky_def)
  have h: "length ?metas = length ?docs \<and> length ?ids = length ?docs \<and> distinct ?ids
      \<and> 1 < length ?docs \<and> fst (flaky (world_before flaky ?docs 0 1) (?docs ! 1)) = Inl ServiceError"
    using w1 by (simp add: flaky_def)
  from embedding_failure_tolerated[where ec = flaky and docs = ?docs and metas = ?metas
      and idents = ?ids and w = 0 and i = 1 and e = ServiceError and db = Map.empty,
      THEN conjunct2, THEN conjunct1, rule_format, OF h]
  obtain embs w' db' where
    r: "setup_vector_db flaky ?docs ?metas ?ids 0 Map.empty = (Inr collection_name, w', db')"
    and c: "db' collection_name = Some (make_entries ?ids embs ?docs ?metas)"
    and l: "length embs = length ?docs"
    and f: "embs ! 1 = []"
    and o: "\<forall>j<length ?docs. \<forall>v vs.
              fst (flaky (world_before flaky ?docs 0 j) (?docs ! j)) = Inr (v # vs) \<longrightarrow> embs ! j = v"
    by blast
  have e0: "embs ! 0 = [1]"
    using o[rule_format, of 0 "[1]" "[]"] w0 by (simp add: flaky_def)
  have e2: "embs ! 2 = [3]"
    using o[rule_format, of 2 "[3]" "[]"] w2 by (simp add: flaky_def)
  have l3: "length embs = 3" using l by simp
  from r c l3 f e0 e2 have first: "\<exists>embs w' db'.
      setup_vector_db flaky ?docs ?metas ?ids 0 Map.empty = (Inr collection_name, w', db')
    \<and> length embs = 3
    \<and> db' collection_name = Some (make_entries ?ids embs ?docs ?metas)
    \<and> embs ! 0 = [1] \<and> embs ! 1 = [] \<and> embs ! 2 = [3]"
    by blast
  have ld: "load_and_chunk_pdfs ?files = (Some ?docs, Some ?metas, Some ?ids) \<and> ?docs \<noteq> []"
    by (simp add: load_and_chunk_pdfs_def process_file_def basename_def window_loop_appended
          appended_def window_count_def stride_def chunk_size_def overlap_def Let_def
          str_nat_digit digit_char_def)
  have second: "\<exists>embs w'.
      ingest flaky ?files 0 Map.empty
        = (Some (Inr collection_name), w',
           Map.empty(collection_name \<mapsto> make_entries ?ids embs ?docs ?metas))
    \<and> length embs = 3"
    using embedding_failure_tolerated[where ec = flaky and docs = ?docs and metas = ?metas
      and idents = ?ids and w = 0 and db = Map.empty and pdf_files = ?files,
      THEN conjunct2, THEN conjunct2, rule_format, OF ld]
    by (simp add: numeral_3_eq_3)
  from first second show ?thesis by (rule conjI)
qed

text \<open>
  Claim C8. The first step of \<^verbatim>\<open>setup_vector_db\<close> leaves no collection of the fixed
  name, whether one existed or not, and raises nothing; the creation that follows always
  succeeds and gives an empty collection. The result of \<^verbatim>\<open>setup_vector_db\<close> does not
  depend on what the collection held before, or on whether it existed: when it succeeds,
  the collection holds exactly the new entries.
\<close>

theorem rebuild_full_replace:
  "drop_collection db collection_name = None
   \<and> create_collection collection_name (drop_collection db) = Inr (db(collection_name \<mapsto> []))
   \<and> setup_vector_db ec docs metas idents w (db(collection_name := old))
        = setup_vector_db ec docs metas idents w db
   \<and> (length metas = length docs \<and> length idents = length docs \<and> distinct idents \<longrightarrow>
        (\<exists>embs w'. setup_vector_db ec docs metas idents w db =
           (Inr collection_name, w', db(collection_name \<mapsto> make_entries idents embs docs metas))
           \<and> length embs = length docs))"
proof (intro conjI impI)
  show "drop_collection db collection_name = None" by (simp add: drop_collection_eq)
  show "create_collection collection_name (drop_collection db) = Inr (db(collection_name \<mapsto> []))"
    by (rule rebuild_empty)
  show "setup_vector_db ec docs metas idents w (db(collection_name := old))
        = setup_vector_db ec docs metas idents w db"
    by (rule setup_vector_db_replace)
next
  assume h: "length metas = length docs \<and> length idents = length docs \<and> distinct idents"
  then have "setup_vector_db ec docs metas idents w db =
     (Inr collection_name, snd (embed_all ec docs w),
      db(collection_name \<mapsto> make_entries idents (fst (embed_all ec docs w)) docs metas))"
    by (intro setup_vector_db_ok) simp_all
  then show "\<exists>embs w'. setup_vector_db ec docs metas idents w db =
           (Inr collection_name, w', db(collection_name \<mapsto> make_entries idents embs docs metas))
           \<and> length embs = length docs"
    using length_embed_all[of ec docs w] by (intro exI conjI) assumption+
qed

theorem rebuild_full_replace_witness:
  "\<exists>embs w'.
     setup_vector_db flaky [''new text''] [\<lparr>source = ''new.pdf'', page = 1\<rparr>] [''doc_0''] 0
       (Map.empty(collection_name \<mapsto>
          [\<lparr>entry_id = ''doc_0'', embedding = [7], document = ''old text'',
            meta = \<lparr>source = ''old.pdf'', page = 4\<rparr>\<rparr>]))
     = (Inr collection_name, w',
        Map.empty(collection_name \<mapsto>
          make_entries [''doc_0''] embs [''new text''] [\<lparr>source = ''new.pdf'', page = 1\<rparr>]))
     \<and> length embs = 1"
  using rebuild_full_replace[where ec = flaky and docs = "[''new text'']"
      and metas = "[\<lparr>source = ''new.pdf'', page = 1\<rparr>]" and idents = "[''doc_0'']" and w = 0
      and db = "Map.empty(collection_name \<mapsto>
          [\<lparr>entry_id = ''doc_0'', embedding = [7], document = ''old text'',
            meta = \<lparr>source = ''old.pdf'', page = 4\<rparr>\<rparr>])"]
  by simp

text \<open>
  Claim C5. With no file the loader returns \<^verbatim>\<open>(None, None, None)\<close>; with files of
  which none has a page yielding text (files that fail to open, pages that are empty or
  fail to extract) it returns three empty lists. Both are values, not exceptions, and in
  both cases the orchestrator does not call \<^verbatim>\<open>setup_vector_db\<close>: the world and the
  store are as before.
\<close>

theorem no_content:
  "(pdf_files = [] \<longrightarrow> load_and_chunk_pdfs pdf_files = (None, None, None))
   \<and> (pdf_files \<noteq> [] \<and> list_all no_text pdf_files \<longrightarrow>
        load_and_chunk_pdfs pdf_files = (Some [], Some [], Some []))
   \<and> (pdf_files = [] \<or> list_all no_text pdf_files \<longrightarrow>
        ingest ec pdf_files w db = (None, w, db))"
proof (intro conjI impI)
  assume "pdf_files = []"
  then show "load_and_chunk_pdfs pdf_files = (None, None, None)"
    by (simp add: load_and_chunk_pdfs_def)
next
  assume "pdf_files \<noteq> [] \<and> list_all no_text pdf_files"
  then show "load_and_chunk_pdfs pdf_files = (Some [], Some [], Some [])"
    by (simp add: load_and_chunk_pdfs_def file_loop_no_text)
next
  assume "pdf_files = [] \<or> list_all no_text pdf_files"
  then have a: "list_all no_text pdf_files" by auto
  show "ingest ec pdf_files w db = (None, w, db)"
    using a by (cases "pdf_files = []")
      (simp_all add: ingest_def load_and_chunk_pdfs_def file_loop_no_text)
qed

theorem no_content_witness:
  "load_and_chunk_pdfs [] = (None, None, None)
   \<and> ingest flaky [] 0 Map.empty = (None, 0, Map.empty)
   \<and> load_and_chunk_pdfs
       [\<lparr>pdf_file = ''pdfs/scan.pdf'', reader = Inr [Extracted [], ExtractFails]\<rparr>,
        \<lparr>pdf_file = ''pdfs/broken.pdf'', reader = Inl ParseError\<rparr>]
       = (Some [], Some [], Some [])
   \<and> ingest flaky
       [\<lparr>pdf_file = ''pdfs/scan.pdf'', reader = Inr [Extracted [], ExtractFails]\<rparr>,
        \<lparr>pdf_file = ''pdfs/broken.pdf'', reader = Inl ParseError\<rparr>] 0 Map.empty
       = (None, 0, Map.empty)"
  using no_content[of "[]" flaky 0 Map.empty]
    no_content[of "[\<lparr>pdf_file = ''pdfs/scan.pdf'', reader = Inr [Extracted [], ExtractFails]\<rparr>,
        \<lparr>pdf_file = ''pdfs/broken.pdf'', reader = Inl ParseError\<rparr>]" flaky 0 Map.empty]
  by (simp add: no_text_def)

section \<open>Properties of model selection, retrieval and the loader as a function\<close>

subsection \<open>The two searches of model selection\<close>

lemma str_in_sublist: "str_in sub s = sublist sub s"
  by (induction s) (simp_all add: sublist_Cons_right)

lemma first_favorite_none:
  "(\<forall>p\<in>set ps. p \<notin> set my_models) \<Longrightarrow> first_favorite ps my_models = None"
  by (induction ps) simp_all

lemma first_favorite_first:
  "(\<forall>p\<in>set pre. p \<notin> set my_models) \<Longrightarrow> m \<in> set my_models \<Longrightarrow>
     first_favorite (pre @ m # post) my_models = Some m"
  by (induction pre) simp_all

lemma first_fallback_none:
  "(\<forall>x\<in>set ms. \<not> is_fallback x) \<Longrightarrow> first_fallback ms = None"
  by (induction ms) simp_all

lemma first_fallback_first:
  "(\<forall>x\<in>set pre. \<not> is_fallback x) \<Longrightarrow> is_fallback m \<Longrightarrow>
     first_fallback (pre @ m # post) = Some m"
  by (induction pre) simp_all

subsection \<open>The context of a query\<close>

lemma context_block_entry: "context_block (document e) (meta e) = entry_block e"
  by (simp add: context_block_def entry_block_def source_info_def)

lemma context_loop_blocks:
  "rs = pre @ suf \<Longrightarrow>
     context_loop (length pre) (map document suf) (map meta rs) ctx
       = Inr (ctx @ concat (map entry_block suf))"
proof (induction suf arbitrary: pre ctx)
  case Nil
  then show ?case by simp
next
  case (Cons e suf)
  have a: "rs = (pre @ [e]) @ suf" using Cons.prems by simp
  have n: "map meta rs ! length pre = meta e"
    using Cons.prems by (simp add: nth_append)
  have l: "length pre < length (map meta rs)" using Cons.prems by simp
  show ?case
    using Cons.IH[OF a, of "ctx @ entry_block e"] n l
    by (simp add: context_block_entry)
qed

lemma context_loop_results:
  "context_loop 0 (map document rs) (map meta rs) [] = Inr (concat (map entry_block rs))"
  using context_loop_blocks[of rs "[]" rs "[]"] by simp

lemma sorted_take_drop:
  "sorted (map f xs) \<Longrightarrow> \<forall>r\<in>set (take k xs). \<forall>e\<in>set (drop k xs). f r \<le> f e"
proof -
  assume s: "sorted (map f xs)"
  have "map f xs = map f (take k xs) @ map f (drop k xs)"
    by (simp flip: map_append)
  with s have "sorted (map f (take k xs) @ map f (drop k xs))" by simp
  then show ?thesis by (auto simp: sorted_append)
qed

subsection \<open>What the loader reads of its input\<close>



section \<open>Claims about model selection, retrieval and determinism\<close>

text \<open>
  Claim C6. \<^verbatim>\<open>get_best_available_model\<close> returns the first name of the preference
  list, in the order of that list, that the listing contains. When the listing contains
  none of them it returns the first listed name that contains \<open>gemini\<close> and neither
  \<open>embedding\<close> nor \<open>vision\<close>, and the default \<open>gemini-1.5-pro\<close> when no
  listed name is of that kind. When the listing raises it returns the default, raising
  nothing. The module calls it once, when it is loaded, and every generation call of
  \<^verbatim>\<open>query_rag_system\<close> is made with the model chosen then.
\<close>

theorem model_selection:
  "(priority_list = pre @ m # post \<and> m \<in> set my_models \<and> (\<forall>p\<in>set pre. p \<notin> set my_models) \<longrightarrow>
       get_best_available_model (Inr my_models) = m)
   \<and> ((\<forall>p\<in>set priority_list. p \<notin> set my_models)
        \<and> my_models = before @ m # rest \<and> (\<forall>x\<in>set before. \<not> is_fallback x) \<and> is_fallback m \<longrightarrow>
       get_best_available_model (Inr my_models) = m)
   \<and> ((\<forall>p\<in>set priority_list. p \<notin> set my_models) \<and> (\<forall>x\<in>set my_models. \<not> is_fallback x) \<longrightarrow>
       get_best_available_model (Inr my_models) = ''gemini-1.5-pro'')
   \<and> (is_fallback m \<longleftrightarrow>
         sublist ''gemini'' m \<and> \<not> sublist ''embedding'' m \<and> \<not> sublist ''vision'' m)
   \<and> get_best_available_model (Inl e) = ''gemini-1.5-pro''
   \<and> (startup GEMINI_API_KEY listing = Inr proc \<longrightarrow>
        CURRENT_MODEL proc = get_best_available_model listing
        \<and> query_rag_system ec gc distance proc collection question w db
           = query_rag_system ec (\<lambda>w model prompt. gc w (get_best_available_model listing) prompt)
               distance proc collection question w db)"
proof (intro conjI impI)
  assume h: "priority_list = pre @ m # post \<and> m \<in> set my_models \<and> (\<forall>p\<in>set pre. p \<notin> set my_models)"
  then have "first_favorite (pre @ m # post) my_models = Some m"
    by (intro first_favorite_first) blast+
  with h have "first_favorite priority_list my_models = Some m" by simp
  then show "get_best_available_model (Inr my_models) = m"
    by (simp add: get_best_available_model_def)
next
  assume h: "(\<forall>p\<in>set priority_list. p \<notin> set my_models)
        \<and> my_models = before @ m # rest \<and> (\<forall>x\<in>set before. \<not> is_fallback x) \<and> is_fallback m"
  then have "first_favorite priority_list my_models = None"
    by (intro first_favorite_none) blast
  moreover from h have "first_fallback my_models = Some m"
    by (simp add: first_fallback_first)
  ultimately show "get_best_available_model (Inr my_models) = m"
    by (simp add: get_best_available_model_def)
next
  assume h: "(\<forall>p\<in>set priority_list. p \<notin> set my_models) \<and> (\<forall>x\<in>set my_models. \<not> is_fallback x)"
  then have "first_favorite priority_list my_models = None"
    by (intro first_favorite_none) blast
  moreover from h have "first_fallback my_models = None"
    by (intro first_fallback_none) blast
  ultimately show "get_best_available_model (Inr my_models) = ''gemini-1.5-pro''"
    by (simp add: get_best_available_model_def)
next
  show "is_fallback m \<longleftrightarrow>
         sublist ''gemini'' m \<and> \<not> sublist ''embedding'' m \<and> \<not> sublist ''vision'' m"
    by (simp only: is_fallback_def str_in_sublist)
next
  show "get_best_available_model (Inl e) = ''gemini-1.5-pro''"
    by (simp add: get_best_available_model_def)
next
  assume s: "startup GEMINI_API_KEY listing = Inr proc"
  then show c: "CURRENT_MODEL proc = get_best_available_model listing"
    by (auto simp: startup_def split: if_splits)
  show "query_rag_system ec gc distance proc collection question w db
           = query_rag_system ec (\<lambda>w model prompt. gc w (get_best_available_model listing) prompt)
               distance proc collection question w db"
    unfolding query_rag_system_def c by (rule refl)
qed

theorem model_selection_witness:
  "get_best_available_model
     (Inr [''models/embedding-001'', ''models/gemini-1.5-pro'', ''models/gemini-1.5-flash-002''])
     = ''models/gemini-1.5-flash-002''
   \<and> get_best_available_model
     (Inr [''models/text-embedding-004'', ''models/gemini-pro-vision'', ''models/gemini-2.0-flash'',
           ''models/gemini-2.5-pro''])
     = ''models/gemini-2.0-flash''
   \<and> get_best_available_model (Inr [''models/text-embedding-004'', ''models/aqa''])
     = ''gemini-1.5-pro''
   \<and> startup (Some ''key'') (Inl ServiceError) = Inr \<lparr>CURRENT_MODEL = ''gemini-1.5-pro''\<rparr>
   \<and> CURRENT_MODEL \<lparr>CURRENT_MODEL = ''gemini-1.5-pro''\<rparr> = get_best_available_model (Inl ServiceError)"
proof -
  let ?l1 = "[''models/embedding-001'', ''models/gemini-1.5-pro'', ''models/gemini-1.5-flash-002'']"
  let ?l2 = "[''models/text-embedding-004'', ''models/gemini-pro-vision'',
              ''models/gemini-2.0-flash'', ''models/gemini-2.5-pro'']"
  let ?l3 = "[''models/text-embedding-004'', ''models/aqa'']"
  have h1: "priority_list
        = [''models/gemini-1.5-flash'', ''models/gemini-1.5-flash-001'']
          @ ''models/gemini-1.5-flash-002''
          # [''models/gemini-1.5-pro'', ''models/gemini-1.5-pro-001'', ''models/gemini-1.5-pro-002'',
             ''models/gemini-1.0-pro'']
      \<and> ''models/gemini-1.5-flash-002'' \<in> set ?l1
      \<and> (\<forall>p\<in>set [''models/gemini-1.5-flash'', ''models/gemini-1.5-flash-001'']. p \<notin> set ?l1)"
    by (simp add: priority_list_def)
  have a: "get_best_available_model (Inr ?l1) = ''models/gemini-1.5-flash-002''"
    using model_selection[where my_models = ?l1 and m = "''models/gemini-1.5-flash-002''"
        and pre = "[''models/gemini-1.5-flash'', ''models/gemini-1.5-flash-001'']"
        and post = "[''models/gemini-1.5-pro'', ''models/gemini-1.5-pro-001'',
                     ''models/gemini-1.5-pro-002'', ''models/gemini-1.0-pro'']",
        THEN conjunct1, rule_format, OF h1] .
  have f1: "\<not> is_fallback ''models/text-embedding-004''"
    by (simp add: is_fallback_def)
  have f2: "\<not> is_fallback ''models/gemini-pro-vision''"
    by (simp add: is_fallback_def)
  have f3: "is_fallback ''models/gemini-2.0-flash''"
    by (simp add: is_fallback_def)
  have f4: "\<not> is_fallback ''models/aqa''"
    by (simp add: is_fallback_def)
  have h2: "(\<forall>p\<in>set priority_list. p \<notin> set ?l2)
      \<and> ?l2 = [''models/text-embedding-004'', ''models/gemini-pro-vision'']
              @ ''models/gemini-2.0-flash'' # [''models/gemini-2.5-pro'']
      \<and> (\<forall>x\<in>set [''models/text-embedding-004'', ''models/gemini-pro-vision'']. \<not> is_fallback x)
      \<and> is_fallback ''models/gemini-2.0-flash''"
    using f1 f2 f3 by (simp add: priority_list_def)
  have b: "get_best_available_model (Inr ?l2) = ''models/gemini-2.0-flash''"
    using model_selection[where my_models = ?l2 and m = "''models/gemini-2.0-flash''"
        and before = "[''models/text-embedding-004'', ''models/gemini-pro-vision'']"
        and rest = "[''models/gemini-2.5-pro'']",
        THEN conjunct2, THEN conjunct1, rule_format, OF h2] .
  have h3: "(\<forall>p\<in>set priority_list. p \<notin> set ?l3) \<and> (\<forall>x\<in>set ?l3. \<not> is_fallback x)"
    using f1 f4 by (simp add: priority_list_def)
  have c: "get_best_available_model (Inr ?l3) = ''gemini-1.5-pro''"
    using model_selection[where my_models = ?l3,
        THEN conjunct2, THEN conjunct2, THEN conjunct1, rule_format, OF h3] .
  have d1: "get_best_available_model (Inl ServiceError) = ''gemini-1.5-pro''"
    using model_selection[where e = ServiceError,
        THEN conjunct2, THEN conjunct2, THEN conjunct2, THEN conjunct2, THEN conjunct1] .
  have h4: "startup (Some ''key'') (Inl ServiceError) = Inr \<lparr>CURRENT_MODEL = ''gemini-1.5-pro''\<rparr>"
    by (simp add: startup_def d1)
  have d: "CURRENT_MODEL \<lparr>CURRENT_MODEL = ''gemini-1.5-pro''\<rparr>
      = get_best_available_model (Inl ServiceError)"
    using model_selection[where GEMINI_API_KEY = "Some ''key''" and listing = "Inl ServiceError"
        and proc = "\<lparr>CURRENT_MODEL = ''gemini-1.5-pro''\<rparr>",
        THEN conjunct2, THEN conjunct2, THEN conjunct2, THEN conjunct2, THEN conjunct2,
        rule_format, OF h4, THEN conjunct1] .
  from a b c h4 d show ?thesis by (intro conjI)
qed

text \<open>
  Claim C7. \<^verbatim>\<open>query_rag_system\<close> embeds the question and asks the collection for
  three results with that embedding. The store returns the first three entries in the
  order of their distance to it, or all of them when there are fewer: no entry is left
  out for being far. The context is the concatenation, in that order, of one block per
  result, a line \<open>Content:\<close> with the text of the chunk and a line
  \<open>Reference: [Source: \<dots>, Page: \<dots>]\<close> with its file and page; the loop over the
  results never fails. The prompt built around this context goes to the generation
  service with the model chosen at start.
\<close>

theorem retrieval_context:
  "get_gemini_embedding ec question w = (q, printed, w1) \<and> db collection = Some es \<longrightarrow>
     (\<exists>results rest.
         collection_query distance collection q 3 db = Inr results
       \<and> sort_key (\<lambda>e. distance q (embedding e)) es = results @ rest
       \<and> length results = min 3 (length es)
       \<and> sorted (map (\<lambda>e. distance q (embedding e)) results)
       \<and> (\<forall>r\<in>set results. \<forall>e\<in>set rest. distance q (embedding r) \<le> distance q (embedding e))
       \<and> context_loop 0 (map document results) (map meta results) []
           = Inr (concat (map entry_block results))
       \<and> query_rag_system ec gc distance proc collection question w db
           = gc w1 (CURRENT_MODEL proc) (make_prompt (concat (map entry_block results)) question))"
proof
  assume h: "get_gemini_embedding ec question w = (q, printed, w1) \<and> db collection = Some es"
  let ?f = "\<lambda>e. distance q (embedding e)"
  let ?s = "sort_key ?f es"
  let ?results = "take 3 ?s"
  let ?rest = "drop 3 ?s"
  have cq: "collection_query distance collection q 3 db = Inr ?results"
    using h by (simp add: collection_query_def)
  have ap: "?s = ?results @ ?rest" by simp
  have len: "length ?results = min 3 (length es)" by simp
  have srt: "sorted (map ?f ?s)" by (rule sorted_sort_key)
  have srt3: "sorted (map ?f ?results)"
    using srt by (simp add: take_map[symmetric] sorted_wrt_take del: take_map)
  have near: "\<forall>r\<in>set ?results. \<forall>e\<in>set ?rest. ?f r \<le> ?f e"
    using srt by (rule sorted_take_drop)
  have cl: "context_loop 0 (map document ?results) (map meta ?results) []
           = Inr (concat (map entry_block ?results))"
    by (rule context_loop_results)
  have qr: "query_rag_system ec gc distance proc collection question w db
           = gc w1 (CURRENT_MODEL proc) (make_prompt (concat (map entry_block ?results)) question)"
    using h cq cl by (simp add: query_rag_system_def)
  show "\<exists>results rest.
         collection_query distance collection q 3 db = Inr results
       \<and> sort_key ?f es = results @ rest
       \<and> length results = min 3 (length es)
       \<and> sorted (map ?f results)
       \<and> (\<forall>r\<in>set results. \<forall>e\<in>set rest. ?f r \<le> ?f e)
       \<and> context_loop 0 (map document results) (map meta results) []
           = Inr (concat (map entry_block results))
       \<and> query_rag_system ec gc distance proc collection question w db
           = gc w1 (CURRENT_MODEL proc) (make_prompt (concat (map entry_block results)) question)"
    using cq ap len srt3 near cl qr by blast
qed

theorem retrieval_context_witness:
  "query_rag_system flaky echo (\<lambda>q v. \<bar>sum_list q - sum_list v\<bar>) \<lparr>CURRENT_MODEL = ''gemini-1.5-pro''\<rparr>
     collection_name ''ab'' 0
     (Map.empty(collection_name \<mapsto>
        [\<lparr>entry_id = ''doc_0'', embedding = [1], document = ''alpha'',
          meta = \<lparr>source = ''a.pdf'', page = 1\<rparr>\<rparr>,
         \<lparr>entry_id = ''doc_1'', embedding = [5], document = ''beta'',
          meta = \<lparr>source = ''a.pdf'', page = 2\<rparr>\<rparr>,
         \<lparr>entry_id = ''doc_2'', embedding = [2], document = ''gamma'',
          meta = \<lparr>source = ''b.pdf'', page = 1\<rparr>\<rparr>,
         \<lparr>entry_id = ''doc_3'', embedding = [9], document = ''delta'',
          meta = \<lparr>source = ''b.pdf'', page = 7\<rparr>\<rparr>]))
   = echo 1 ''gemini-1.5-pro''
       (make_prompt
          (''Content: gamma\<newline>Reference: [Source: b.pdf, Page: 1]\<newline>\<newline>''
           @ ''Content: alpha\<newline>Reference: [Source: a.pdf, Page: 1]\<newline>\<newline>''
           @ ''Content: beta\<newline>Reference: [Source: a.pdf, Page: 2]\<newline>\<newline>'')
          ''ab'')"
proof -
  let ?d = "\<lambda>q v :: real list. \<bar>sum_list q - sum_list v\<bar>"
  let ?e0 = "\<lparr>entry_id = ''doc_0'', embedding = [1], document = ''alpha'',
          meta = \<lparr>source = ''a.pdf'', page = 1\<rparr>\<rparr>"
  let ?e1 = "\<lparr>entry_id = ''doc_1'', embedding = [5], document = ''beta'',
          meta = \<lparr>source = ''a.pdf'', page = 2\<rparr>\<rparr>"
  let ?e2 = "\<lparr>entry_id = ''doc_2'', embedding = [2], document = ''gamma'',
          meta = \<lparr>source = ''b.pdf'', page = 1\<rparr>\<rparr>"
  let ?e3 = "\<lparr>entry_id = ''doc_3'', embedding = [9], document = ''delta'',
          meta = \<lparr>source = ''b.pdf'', page = 7\<rparr>\<rparr>"
  let ?db = "Map.empty(collection_name \<mapsto> [?e0, ?e1, ?e2, ?e3])"
  have h: "get_gemini_embedding flaky ''ab'' 0 = ([2], None, 1)
      \<and> ?db collection_name = Some [?e0, ?e1, ?e2, ?e3]"
    by (simp add: get_gemini_embedding_def flaky_def)
  from retrieval_context[where ec = flaky and question = "''ab''" and w = 0 and q = "[2]"
      and printed = None and ?w1.0 = 1 and db = ?db and collection = collection_name
      and es = "[?e0, ?e1, ?e2, ?e3]" and distance = ?d and gc = echo
      and proc = "\<lparr>CURRENT_MODEL = ''gemini-1.5-pro''\<rparr>", rule_format, OF h]
  obtain results rest where
    cq: "collection_query ?d collection_name [2] 3 ?db = Inr results"
    and qr: "query_rag_system flaky echo ?d \<lparr>CURRENT_MODEL = ''gemini-1.5-pro''\<rparr>
               collection_name ''ab'' 0 ?db
             = echo 1 (CURRENT_MODEL \<lparr>CURRENT_MODEL = ''gemini-1.5-pro''\<rparr>)
                 (make_prompt (concat (map entry_block results)) ''ab'')"
    by blast
  have "collection_query ?d collection_name [2] 3 ?db = Inr [?e2, ?e0, ?e1]"
    by (simp add: collection_query_def)
  with cq have r: "results = [?e2, ?e0, ?e1]" by simp
  have s1: "str_nat 1 = ''1''" and s2: "str_nat 2 = ''2''"
    by (simp_all add: str_nat_digit digit_char_def)
  have c: "concat (map entry_block results)
      = ''Content: gamma\<newline>Reference: [Source: b.pdf, Page: 1]\<newline>\<newline>''
           @ ''Content: alpha\<newline>Reference: [Source: a.pdf, Page: 1]\<newline>\<newline>''
           @ ''Content: beta\<newline>Reference: [Source: a.pdf, Page: 2]\<newline>\<newline>''"
    unfolding r using s1 s2 by (simp add: entry_block_def)
  show ?thesis using qr unfolding c by simp
qed



end
